(* ===== verification/Prelude.thy ===== *)
theory Prelude
  imports
    Main
    "HOL-Library.AList"
    "HOL-Library.Char_ord"
    "HOL-Library.List_Lexorder"
    "HOL-Library.Sublist"
    "HOL-Library.Code_Target_Nat"
    "HOL-Library.Code_Target_Int"
begin

text \<open>
  The base of the development: the collections of rules the component proofs draw on, and the
  operations of Go's \<^verbatim>\<open>strings\<close>, \<^verbatim>\<open>unicode/utf8\<close>, \<^verbatim>\<open>encoding/hex\<close> and \<^verbatim>\<open>path\<close> packages that the
  program calls. A Go string and a Go byte slice are both a list of bytes, and a byte is a
  \<^typ>\<open>char\<close> (eight bits), so \<^verbatim>\<open>len\<close> is \<^const>\<open>length\<close> and slicing is \<^const>\<open>take\<close> and \<^const>\<open>drop\<close>.
\<close>

named_theorems go_str \<open>characterisations of the string operations\<close>
named_theorems hoare_rules \<open>Hoare rules of the effect monad\<close>
named_theorems wf_rules \<open>operations that keep the file system well formed\<close>
named_theorems frame_rules \<open>what an operation leaves alone\<close>

type_synonym bytes = "char list"

section \<open>Prefixes, suffixes and splitting\<close>

definition has_prefix :: "string \<Rightarrow> string \<Rightarrow> bool" where
  "has_prefix s p \<longleftrightarrow> take (length p) s = p"

definition has_suffix :: "string \<Rightarrow> string \<Rightarrow> bool" where
  "has_suffix s p \<longleftrightarrow> has_prefix (rev s) (rev p)"

definition trim_prefix :: "string \<Rightarrow> string \<Rightarrow> string" where
  "trim_prefix s p = (if has_prefix s p then drop (length p) s else s)"

definition trim_suffix :: "string \<Rightarrow> string \<Rightarrow> string" where
  "trim_suffix s p = (if has_suffix s p then take (length s - length p) s else s)"

definition contains_any :: "string \<Rightarrow> string \<Rightarrow> bool" where
  "contains_any s cs \<longleftrightarrow> list_ex (\<lambda>c. c \<in> set cs) s"

text \<open>\<^verbatim>\<open>strings.Split(s, sep)\<close> and \<^verbatim>\<open>strings.SplitN(s, sep, 2)\<close> for a one-byte separator.\<close>

fun split_on :: "char \<Rightarrow> string \<Rightarrow> string list" where
  "split_on c [] = [[]]"
| "split_on c (x # xs) =
     (if x = c then [] # split_on c xs
      else (case split_on c xs of [] \<Rightarrow> [[x]] | y # ys \<Rightarrow> (x # y) # ys))"

definition split_two :: "char \<Rightarrow> string \<Rightarrow> string list" where
  "split_two c s =
     (let a = takeWhile (\<lambda>x. x \<noteq> c) s; r = dropWhile (\<lambda>x. x \<noteq> c) s
      in if r = [] then [a] else [a, tl r])"

lemma has_prefix_iff [go_str]: "has_prefix s p \<longleftrightarrow> (\<exists>r. s = p @ r)"
proof
  assume "has_prefix s p"
  then have "s = p @ drop (length p) s"
    by (metis append_take_drop_id has_prefix_def)
  then show "\<exists>r. s = p @ r" ..
qed (auto simp: has_prefix_def)

lemma has_prefix_append [simp]: "has_prefix (p @ r) p"
  by (simp add: has_prefix_def)

lemma has_suffix_iff [go_str]: "has_suffix s p \<longleftrightarrow> (\<exists>r. s = r @ p)"
proof
  assume "has_suffix s p"
  then obtain r where "rev s = rev p @ r"
    by (auto simp: has_suffix_def has_prefix_iff)
  then have "s = rev r @ p"
    by (metis rev_append rev_rev_ident)
  then show "\<exists>r. s = r @ p" ..
qed (auto simp: has_suffix_def has_prefix_def)

lemma has_suffix_append [simp]: "has_suffix (r @ p) p"
  by (auto simp: has_suffix_iff)

lemma trim_prefix_append [simp]: "trim_prefix (p @ r) p = r"
  by (simp add: trim_prefix_def)

lemma contains_any_iff [go_str]: "contains_any s cs \<longleftrightarrow> set s \<inter> set cs \<noteq> {}"
  by (auto simp: contains_any_def list_ex_iff)

lemma split_two_append [simp]:
  "c \<notin> set a \<Longrightarrow> split_two c (a @ c # b) = [a, b]"
proof -
  assume "c \<notin> set a"
  then have "\<forall>x \<in> set a. x \<noteq> c" by auto
  then show ?thesis
    by (simp add: split_two_def Let_def takeWhile_append2 dropWhile_append2)
qed

lemma split_on_nonempty [simp]: "split_on c s \<noteq> []"
  by (cases s) (auto split: list.splits)

text \<open>Joining the pieces with the separator gives the string back.\<close>

fun join_with :: "char \<Rightarrow> string list \<Rightarrow> string" where
  "join_with c [] = []"
| "join_with c [x] = x"
| "join_with c (x # y # ys) = x @ c # join_with c (y # ys)"

lemma join_with_Cons: "ys \<noteq> [] \<Longrightarrow> join_with c (x # ys) = x @ c # join_with c ys"
  by (cases ys) auto

lemma join_split_on: "join_with c (split_on c s) = s"
proof (induction s)
  case Nil
  then show ?case by simp
next
  case (Cons x xs)
  obtain y ys where ys: "split_on c xs = y # ys"
    using split_on_nonempty list.exhaust by metis
  with Cons show ?case
    by (cases ys) (auto simp: join_with_Cons)
qed

section \<open>UTF-8 and white space\<close>

text \<open>
  \<^verbatim>\<open>utf8.DecodeRuneInString\<close>: the code point and the width of the first rune. A byte that does
  not start a well-formed encoding decodes as U+FFFD of width one. The second byte's range
  excludes overlong forms, surrogates and values past U+10FFFF.
\<close>

definition bval :: "char \<Rightarrow> nat" where
  "bval c = (of_char c :: nat)"

definition in_range :: "nat \<Rightarrow> nat \<Rightarrow> nat \<Rightarrow> bool" where
  "in_range lo hi n \<longleftrightarrow> lo \<le> n \<and> n \<le> hi"

definition second_range :: "nat \<Rightarrow> nat \<times> nat" where
  "second_range b0 =
     (if b0 = 0xE0 then (0xA0, 0xBF) else if b0 = 0xED then (0x80, 0x9F)
      else if b0 = 0xF0 then (0x90, 0xBF) else if b0 = 0xF4 then (0x80, 0x8F)
      else (0x80, 0xBF))"

definition rune_width :: "nat \<Rightarrow> nat" where
  "rune_width b0 =
     (if b0 < 0x80 then 1 else if in_range 0xC2 0xDF b0 then 2
      else if in_range 0xE0 0xEF b0 then 3 else if in_range 0xF0 0xF4 b0 then 4 else 0)"

definition rune_error :: nat where
  "rune_error = 0xFFFD"

fun decode_rune :: "string \<Rightarrow> nat \<times> nat" where
  "decode_rune [] = (rune_error, 0)"
| "decode_rune (c # cs) =
     (let b0 = bval c; k = rune_width b0; bs = map bval (take (k - 1) cs)
      in if k = 1 then (b0, 1)
         else if k = 0 \<or> length bs < k - 1
              \<or> \<not> in_range (fst (second_range b0)) (snd (second_range b0)) (hd bs)
              \<or> \<not> list_all (in_range 0x80 0xBF) (tl bs)
         then (rune_error, 1)
         else (foldl (\<lambda>acc b. acc * 64 + b mod 64)
                 (b0 mod (if k = 2 then 32 else if k = 3 then 16 else 8)) bs, k))"

lemma decode_rune_width_pos: "s \<noteq> [] \<Longrightarrow> 0 < snd (decode_rune s)"
  by (cases s) (auto simp: Let_def)

text \<open>\<^verbatim>\<open>for _, char := range s\<close> visits the decoded runes from left to right.\<close>

function runes :: "string \<Rightarrow> nat list" where
  "runes s = (if s = [] then [] else fst (decode_rune s) # runes (drop (snd (decode_rune s)) s))"
  by pat_completeness auto
termination
proof (relation "measure length")
  fix s :: string
  assume "s \<noteq> []"
  then show "(drop (snd (decode_rune s)) s, s) \<in> measure length"
    using decode_rune_width_pos [of s] by (simp del: decode_rune.simps)
qed simp

declare runes.simps [simp del]

lemma runes_Nil [simp]: "runes [] = []"
  by (simp add: runes.simps)

lemma runes_ascii_Cons: "bval c < 0x80 \<Longrightarrow> runes (c # cs) = bval c # runes cs"
  by (simp add: runes.simps [of "c # cs"] rune_width_def)

lemma runes_ascii: "\<forall>c \<in> set s. bval c < 0x80 \<Longrightarrow> runes s = map bval s"
  by (induction s) (auto simp: runes_ascii_Cons)

text \<open>\<^verbatim>\<open>unicode.IsSpace\<close> and \<^verbatim>\<open>unicode.IsControl\<close> on code points.\<close>

definition is_space_rune :: "nat \<Rightarrow> bool" where
  "is_space_rune r \<longleftrightarrow>
     in_range 9 13 r \<or> in_range 0x2000 0x200A r
     \<or> r \<in> set [0x20, 0x85, 0xA0, 0x1680, 0x2028, 0x2029, 0x202F, 0x205F, 0x3000]"

definition is_control_rune :: "nat \<Rightarrow> bool" where
  "is_control_rune r \<longleftrightarrow> r < 0x20 \<or> in_range 0x7F 0x9F r"

text \<open>
  The encodings of the white-space code points. They are well formed, so a string starts
  (ends) with a white-space rune exactly when one of them is a prefix (suffix) of it.
\<close>

definition utf8_spaces :: "string list" where
  "utf8_spaces =
     [[CHR 0x09], [CHR 0x0A], [CHR 0x0B], [CHR 0x0C], [CHR 0x0D], [CHR 0x20],
      [CHR 0xC2, CHR 0x85], [CHR 0xC2, CHR 0xA0], [CHR 0xE1, CHR 0x9A, CHR 0x80],
      [CHR 0xE2, CHR 0x80, CHR 0x80], [CHR 0xE2, CHR 0x80, CHR 0x81],
      [CHR 0xE2, CHR 0x80, CHR 0x82], [CHR 0xE2, CHR 0x80, CHR 0x83],
      [CHR 0xE2, CHR 0x80, CHR 0x84], [CHR 0xE2, CHR 0x80, CHR 0x85],
      [CHR 0xE2, CHR 0x80, CHR 0x86], [CHR 0xE2, CHR 0x80, CHR 0x87],
      [CHR 0xE2, CHR 0x80, CHR 0x88], [CHR 0xE2, CHR 0x80, CHR 0x89],
      [CHR 0xE2, CHR 0x80, CHR 0x8A], [CHR 0xE2, CHR 0x80, CHR 0xA8],
      [CHR 0xE2, CHR 0x80, CHR 0xA9], [CHR 0xE2, CHR 0x80, CHR 0xAF],
      [CHR 0xE2, CHR 0x81, CHR 0x9F], [CHR 0xE3, CHR 0x80, CHR 0x80]]"

lemma utf8_spaces_decode:
  "map decode_rune utf8_spaces =
     map (\<lambda>(r, k). (r, k))
       [(9, 1), (10, 1), (11, 1), (12, 1), (13, 1), (0x20, 1), (0x85, 2), (0xA0, 2),
        (0x1680, 3), (0x2000, 3), (0x2001, 3), (0x2002, 3), (0x2003, 3), (0x2004, 3),
        (0x2005, 3), (0x2006, 3), (0x2007, 3), (0x2008, 3), (0x2009, 3), (0x200A, 3),
        (0x2028, 3), (0x2029, 3), (0x202F, 3), (0x205F, 3), (0x3000, 3)]"
  by (simp add: utf8_spaces_def bval_def rune_width_def in_range_def second_range_def)

text \<open>\<open>strip ps s\<close> removes members of \<open>ps\<close> from the front of \<open>s\<close> for as long as one fits.\<close>

function strip :: "string list \<Rightarrow> string \<Rightarrow> string" where
  "strip ps s =
     (case find (\<lambda>p. p \<noteq> [] \<and> has_prefix s p) ps of
        None \<Rightarrow> s
      | Some p \<Rightarrow> strip ps (drop (length p) s))"
  by pat_completeness auto
termination
  by (relation "measure (length \<circ> snd)") (auto simp: find_Some_iff has_prefix_iff)

declare strip.simps [simp del]

text \<open>\<^verbatim>\<open>strings.TrimSpace\<close>\<close>

definition trim_space :: "string \<Rightarrow> string" where
  "trim_space s = rev (strip (map rev utf8_spaces) (rev (strip utf8_spaces s)))"

lemma strip_shorter: "strip ps s = s \<or> length (strip ps s) < length s"
proof (induction ps s rule: strip.induct)
  case (1 ps s)
  show ?case
  proof (cases "find (\<lambda>p. p \<noteq> [] \<and> has_prefix s p) ps")
    case None
    then show ?thesis by (simp add: strip.simps [of ps s])
  next
    case (Some p)
    then have "length (drop (length p) s) < length s"
      by (auto simp: find_Some_iff has_prefix_iff)
    with "1.IH" [OF Some] Some show ?thesis
      by (auto simp: strip.simps [of ps s])
  qed
qed

lemma strip_id_iff: "strip ps s = s \<longleftrightarrow> (\<forall>p \<in> set ps. p \<noteq> [] \<longrightarrow> \<not> has_prefix s p)"
proof (cases "find (\<lambda>p. p \<noteq> [] \<and> has_prefix s p) ps")
  case None
  then have "\<forall>p \<in> set ps. p \<noteq> [] \<longrightarrow> \<not> has_prefix s p"
    by (auto simp: find_None_iff)
  with None show ?thesis by (simp add: strip.simps [of ps s])
next
  case (Some p)
  then have p: "p \<in> set ps" "p \<noteq> []" "has_prefix s p"
    by (auto simp: find_Some_iff)
  then have "length (drop (length p) s) < length s"
    by (auto simp: has_prefix_iff)
  moreover have "strip ps s = strip ps (drop (length p) s)"
    using Some by (simp add: strip.simps [of ps s])
  ultimately have "length (strip ps s) < length s"
    using strip_shorter [of ps "drop (length p) s"] by auto
  then have "strip ps s \<noteq> s" by auto
  with p show ?thesis by auto
qed

text \<open>A string equals its trimmed form exactly when no white space stands at either end.\<close>

lemma trim_space_id_iff [go_str]:
  "trim_space s = s \<longleftrightarrow>
     (\<forall>p \<in> set utf8_spaces. \<not> has_prefix s p) \<and> (\<forall>p \<in> set utf8_spaces. \<not> has_suffix s p)"
proof -
  have ne: "\<forall>p \<in> set utf8_spaces. p \<noteq> []"
    by (simp add: utf8_spaces_def)
  show ?thesis
  proof (cases "strip utf8_spaces s = s")
    case True
    have "trim_space s = s \<longleftrightarrow> strip (map rev utf8_spaces) (rev s) = rev s"
      using True by (auto simp: trim_space_def rev_swap)
    also have "\<dots> \<longleftrightarrow> (\<forall>p \<in> set utf8_spaces. \<not> has_suffix s p)"
      using ne by (auto simp: strip_id_iff has_suffix_def)
    finally show ?thesis
      using True ne by (auto simp: strip_id_iff)
  next
    case False
    then have "length (strip utf8_spaces s) < length s"
      using strip_shorter by blast
    moreover have "length (trim_space s) \<le> length (strip utf8_spaces s)"
      using strip_shorter [of "map rev utf8_spaces" "rev (strip utf8_spaces s)"]
      by (auto simp: trim_space_def)
    ultimately have "trim_space s \<noteq> s" by auto
    with False ne show ?thesis by (auto simp: strip_id_iff)
  qed
qed

lemma trim_space_Nil [simp]: "trim_space [] = []"
  by (simp add: trim_space_id_iff utf8_spaces_def has_prefix_def has_suffix_def)

end
