(* ===== verification/Errors.thy ===== *)
theory Errors
  imports Prelude
begin

text \<open>
  Go error values. An error is a tree: a leaf is a sentinel of the standard library or of the
  operating system, a formatted error without \<^verbatim>\<open>%w\<close> or another failure of the system, and an
  inner node is an error that wraps others (\<^verbatim>\<open>fmt.Errorf\<close> with \<^verbatim>\<open>%w\<close>, \<^verbatim>\<open>errors.Join\<close>,
  \<^verbatim>\<open>RollbackError\<close>). A message is kept as its format string and arguments: no branch of the
  program depends on the rendered text. \<^verbatim>\<open>errors.Is\<close> and \<^verbatim>\<open>errors.As\<close> walk the tree.
\<close>

text \<open>A resolved, absolute path: its directory and its last element.\<close>

datatype path = Path (dir_of: string) (base_of: string)

definition path_string :: "path \<Rightarrow> string" where
  "path_string p = dir_of p @ ''/'' @ base_of p"

datatype gerror =
    ErrorString string
  | Errorf string "garg list"
  | Wrapf string "garg list" gerror
  | JoinErr "gerror list"
  | HttpStatusError string int string
  | RollbackErr path path gerror gerror
  | CtxCanceled
  | CtxDeadlineExceeded
  | ErrEOF
  | ErrUnexpectedEOF
  | ErrNotExist
  | ErrExist
  | ErrWouldBlock
  | ErrAgain
  | ErrLockViolation
  | ErrSharingViolation
  | ErrAccessDenied
  | SysError string
and garg =
    AStr string
  | AInt int
  | AErr gerror

section \<open>errors.Is, errors.As, errors.Join\<close>

fun errors_is :: "gerror \<Rightarrow> gerror \<Rightarrow> bool" where
  "errors_is (Wrapf f a e) t = (Wrapf f a e = t \<or> errors_is e t)"
| "errors_is (JoinErr es) t = (JoinErr es = t \<or> list_ex (\<lambda>e. errors_is e t) es)"
| "errors_is (RollbackErr p b u r) t =
     (RollbackErr p b u r = t \<or> errors_is u t \<or> errors_is r t)"
| "errors_is e t = (e = t)"

text \<open>
  \<^verbatim>\<open>errors.As(err, &statusErr)\<close> for \<^verbatim>\<open>*httpStatusError\<close>: the status code of the first such error
  in the tree, in depth-first order.
\<close>

fun as_http_status :: "gerror \<Rightarrow> int option" where
  "as_http_status (HttpStatusError d c t) = Some c"
| "as_http_status (Wrapf f a e) = as_http_status e"
| "as_http_status (RollbackErr p b u r) =
     (case as_http_status u of Some c \<Rightarrow> Some c | None \<Rightarrow> as_http_status r)"
| "as_http_status (JoinErr []) = None"
| "as_http_status (JoinErr (e # es)) =
     (case as_http_status e of Some c \<Rightarrow> Some c | None \<Rightarrow> as_http_status (JoinErr es))"
| "as_http_status _ = None"

text \<open>\<^verbatim>\<open>errors.Join(returnErr, err)\<close> with a non-nil second argument; nil arguments are dropped.\<close>

definition errors_join :: "gerror option \<Rightarrow> gerror \<Rightarrow> gerror" where
  "errors_join r e = (case r of None \<Rightarrow> JoinErr [e] | Some r' \<Rightarrow> JoinErr [r', e])"

definition keepFirstError :: "gerror option \<Rightarrow> gerror \<Rightarrow> gerror" where
  "keepFirstError f candidate = (case f of Some e \<Rightarrow> e | None \<Rightarrow> candidate)"

definition isContextError :: "gerror \<Rightarrow> bool" where
  "isContextError e \<longleftrightarrow> errors_is e CtxCanceled \<or> errors_is e CtxDeadlineExceeded"

definition isPendingCleanupError :: "gerror \<Rightarrow> bool" where
  "isPendingCleanupError e \<longleftrightarrow> errors_is e ErrSharingViolation \<or> errors_is e ErrAccessDenied"

section \<open>RollbackError (install.go)\<close>

definition rollback_Error :: "gerror \<Rightarrow> gerror option" where
  "rollback_Error e =
     (case e of
        RollbackErr t b u r \<Rightarrow>
          Some (Errorf ''selfupdate: update %s from backup %s failed: %v; rollback failed: %v''
            [AStr (path_string t), AStr (path_string b), AErr u, AErr r])
      | _ \<Rightarrow> None)"

fun rollback_Unwrap :: "gerror \<Rightarrow> gerror list" where
  "rollback_Unwrap (RollbackErr t b u r) = [u, r]"
| "rollback_Unwrap _ = []"

lemma errors_is_refl [simp]: "errors_is e e"
  by (cases e) auto

lemma errors_is_wrap [intro]: "errors_is e t \<Longrightarrow> errors_is (Wrapf f a e) t"
  by simp

lemma errors_is_join_left: "r = Some r' \<Longrightarrow> errors_is r' t \<Longrightarrow> errors_is (errors_join r e) t"
  by (simp add: errors_join_def)

lemma errors_is_join_right: "errors_is e t \<Longrightarrow> errors_is (errors_join r e) t"
  by (cases r) (simp_all add: errors_join_def)

lemma errors_is_rollback:
  "t \<noteq> RollbackErr p b u r \<Longrightarrow>
     errors_is (RollbackErr p b u r) t \<longleftrightarrow> (\<exists>e \<in> set (rollback_Unwrap (RollbackErr p b u r)). errors_is e t)"
  by auto

lemma isContextError_wrap [simp]: "isContextError (Wrapf f a e) = isContextError e"
  by (simp add: isContextError_def)

end
