(* ===== verification/Url.thy ===== *)
theory Url
  imports Prelude
begin

text \<open>
  The parts of \<^verbatim>\<open>net/url\<close> and \<^verbatim>\<open>strings\<close> that the URL checks of the program compute with. A parsed
  URL is a record. Parsing, printing and resolving a URL and reading its query are operations of
  the parameter \<open>url_lib\<close>, so what is proved holds of every parser; \<^verbatim>\<open>Hostname\<close>, \<^verbatim>\<open>Port\<close>, \<^verbatim>\<open>IsAbs\<close> and the escaping of path segments and query values
  are written out.
\<close>

record url =
  u_scheme :: string
  u_opaque :: string
  u_user :: bool \<comment> \<open>\<^verbatim>\<open>User != nil\<close>\<close>
  u_host :: string
  u_path :: string
  u_raw_path :: string
  u_rawquery :: string
  u_fragment :: string

record url_lib =
  url_parse :: "string \<Rightarrow> url option"
  url_string :: "url \<Rightarrow> string"
  url_resolve :: "url \<Rightarrow> url \<Rightarrow> url"
  url_escaped_path :: "url \<Rightarrow> string"
  url_query :: "url \<Rightarrow> (string \<times> string list) list"

definition is_abs :: "url \<Rightarrow> bool" where
  "is_abs u \<longleftrightarrow> u_scheme u \<noteq> []"

section \<open>Host and port\<close>

definition is_digit :: "char \<Rightarrow> bool" where
  "is_digit c \<longleftrightarrow> CHR ''0'' \<le> c \<and> c \<le> CHR ''9''"

text \<open>The text before the last colon and the text after it, when there is one.\<close>

definition split_last_colon :: "string \<Rightarrow> (string \<times> string) option" where
  "split_last_colon s =
     (if CHR '':'' \<in> set s
      then Some (rev (tl (dropWhile (\<lambda>c. c \<noteq> CHR '':'') (rev s))),
                 rev (takeWhile (\<lambda>c. c \<noteq> CHR '':'') (rev s)))
      else None)"

definition split_host_port :: "string \<Rightarrow> string \<times> string" where
  "split_host_port s =
     (let (host, port) =
            (case split_last_colon s of
               None \<Rightarrow> (s, [])
             | Some (h, p) \<Rightarrow> if list_all is_digit p then (h, p) else (s, []))
      in (if has_prefix host ''['' \<and> has_suffix host '']'' then butlast (tl host) else host, port))"

definition hostname :: "url \<Rightarrow> string" where
  "hostname u = fst (split_host_port (u_host u))"

definition port_of :: "url \<Rightarrow> string" where
  "port_of u = snd (split_host_port (u_host u))"

section \<open>Case folding\<close>

text \<open>
  \<^verbatim>\<open>strings.ToLower\<close> on a string compared with ASCII text. Besides the ASCII letters, two runes
  have an ASCII lower case: U+0130 (capital I with dot) maps to \<open>i\<close> and U+212A (Kelvin sign) to
  \<open>k\<close>. Every other rune keeps a lower case outside ASCII and is left as it is.
\<close>

definition lower_rune :: "nat \<Rightarrow> nat" where
  "lower_rune r =
     (if in_range 65 90 r then r + 32 else if r = 0x130 then 105 else if r = 0x212A then 107 else r)"

definition lower_runes :: "string \<Rightarrow> nat list" where
  "lower_runes s = map lower_rune (runes s)"

text \<open>
  \<^verbatim>\<open>strings.EqualFold\<close>: the fold orbits that reach ASCII are the letter pairs, U+017F (long s)
  with \<open>s\<close> and U+212A with \<open>k\<close>. Where one side is ASCII this is the library's result.
\<close>

definition fold_rune :: "nat \<Rightarrow> nat" where
  "fold_rune r =
     (if in_range 65 90 r then r + 32 else if r = 0x17F then 115 else if r = 0x212A then 107 else r)"

definition equal_fold :: "string \<Rightarrow> string \<Rightarrow> bool" where
  "equal_fold s t \<longleftrightarrow> map fold_rune (runes s) = map fold_rune (runes t)"

definition is_ascii :: "string \<Rightarrow> bool" where
  "is_ascii s \<longleftrightarrow> list_all (\<lambda>c. bval c < 0x80) s"

definition lower_char :: "char \<Rightarrow> char" where
  "lower_char c = (if in_range 65 90 (bval c) then char_of (bval c + 32) else c)"

lemma bval_lower_char: "bval c < 0x80 \<Longrightarrow> bval (lower_char c) = lower_rune (bval c)"
  by (auto simp: lower_char_def lower_rune_def in_range_def bval_def)

lemma bval_inject [simp]: "bval c = bval d \<longleftrightarrow> c = d"
  by (simp add: bval_def)

lemma lower_runes_ascii: "is_ascii s \<Longrightarrow> lower_runes s = map bval (map lower_char s)"
  by (induction s)
    (auto simp: is_ascii_def lower_runes_def runes_ascii_Cons bval_lower_char)

lemma fold_lower_ascii: "r < 0x80 \<Longrightarrow> fold_rune r = lower_rune r"
  by (simp add: fold_rune_def lower_rune_def)

lemma fold_runes_ascii:
  "is_ascii s \<Longrightarrow> map fold_rune (runes s) = map bval (map lower_char s)"
  by (induction s)
    (auto simp: is_ascii_def runes_ascii_Cons bval_lower_char fold_lower_ascii)

lemma map_bval_inject: "map bval s = map bval t \<longleftrightarrow> s = t"
  by (simp add: inj_map_eq_map inj_def)

text \<open>On ASCII text both comparisons are equality of the lower-cased strings.\<close>

lemma equal_fold_ascii:
  "is_ascii s \<Longrightarrow> is_ascii t \<Longrightarrow> equal_fold s t \<longleftrightarrow> map lower_char s = map lower_char t"
  unfolding equal_fold_def by (simp only: fold_runes_ascii map_bval_inject)

lemma equal_fold_Nil [simp]: "equal_fold [] t \<longleftrightarrow> t = []"
proof -
  have "runes t = [] \<longleftrightarrow> t = []" by (subst runes.simps) simp
  then show ?thesis by (simp add: equal_fold_def)
qed

lemma equal_fold_refl [simp]: "equal_fold s s"
  by (simp add: equal_fold_def)

lemma equal_fold_sym: "equal_fold s t \<Longrightarrow> equal_fold t s"
  by (simp add: equal_fold_def)

lemma equal_fold_trans: "equal_fold s t \<Longrightarrow> equal_fold t u \<Longrightarrow> equal_fold s u"
  by (simp add: equal_fold_def)

section \<open>Percent-encoding\<close>

definition hex_upper :: "char list" where
  "hex_upper = ''0123456789ABCDEF''"

definition unreserved :: "char list" where
  "unreserved =
     ''ABCDEFGHIJKLMNOPQRSTUVWXYZabcdefghijklmnopqrstuvwxyz0123456789-_.~''"

definition percent :: "char \<Rightarrow> string" where
  "percent c = [CHR ''%'', hex_upper ! (bval c div 16), hex_upper ! (bval c mod 16)]"

text \<open>\<^verbatim>\<open>url.PathEscape\<close> and \<^verbatim>\<open>url.QueryEscape\<close>\<close>

definition path_escape :: "string \<Rightarrow> string" where
  "path_escape s =
     concat (map (\<lambda>c. if c \<in> set unreserved \<or> c \<in> set ''$&+=:@'' then [c] else percent c) s)"

definition query_escape :: "string \<Rightarrow> string" where
  "query_escape s =
     concat (map (\<lambda>c. if c \<in> set unreserved then [c] else if c = CHR '' '' then ''+'' else percent c) s)"

lemma path_escape_id:
  "set s \<subseteq> set unreserved \<Longrightarrow> path_escape s = s"
  by (induction s) (auto simp: path_escape_def)

section \<open>A concrete library, for the witnesses\<close>

text \<open>
  \<^verbatim>\<open>https\<close> URLs without user information or fragment, and nothing else. The query is split at
  \<^verbatim>\<open>&\<close> and \<^verbatim>\<open>=\<close>, with the percent escapes decoded.
\<close>

definition hex_upper_val :: "char \<Rightarrow> nat" where
  "hex_upper_val c = length (takeWhile (\<lambda>d. d \<noteq> c) hex_upper)"

fun query_unescape :: "string \<Rightarrow> string" where
  "query_unescape (c # a # b # s) =
     (if c = CHR ''%'' then char_of (16 * hex_upper_val a + hex_upper_val b) # query_unescape s
      else (if c = CHR ''+'' then CHR '' '' else c) # query_unescape (a # b # s))"
| "query_unescape s = s"

definition cut_at :: "char \<Rightarrow> string \<Rightarrow> string \<times> string" where
  "cut_at c s = (takeWhile (\<lambda>x. x \<noteq> c) s, dropWhile (\<lambda>x. x \<noteq> c) s)"

definition sample_url :: "string \<Rightarrow> string \<Rightarrow> string \<Rightarrow> url" where
  "sample_url host path q =
     \<lparr>u_scheme = ''https'', u_opaque = [], u_user = False, u_host = host, u_path = path,
      u_raw_path = [], u_rawquery = q, u_fragment = []\<rparr>"

definition https_url :: url_lib where
  "https_url =
     \<lparr>url_parse = (\<lambda>s.
        if has_prefix s ''https://''
        then (let (host, rest) = cut_at (CHR ''/'') (drop 8 s); (path, q) = cut_at (CHR ''?'') rest
              in Some (sample_url host path (tl q)))
        else None),
      url_string = (\<lambda>u.
        if u_scheme u = ''https'' \<and> CHR ''/'' \<notin> set (u_host u) \<and> (u_path u = [] \<and> u_rawquery u = [] \<or> has_prefix (u_path u) ''/'')
        then ''https://'' @ u_host u @ u_path u @ (if u_rawquery u = [] then [] else CHR ''?'' # u_rawquery u)
        else []),
      url_resolve = (\<lambda>base u. u\<lparr>u_scheme := u_scheme base, u_host := u_host base\<rparr>),
      url_escaped_path = u_path,
      url_query = (\<lambda>u.
        if u_rawquery u = [] then []
        else map (\<lambda>kv. (query_unescape (split_two (CHR ''='') kv ! 0), [query_unescape (split_two (CHR ''='') kv ! 1)]))
               (split_on (CHR ''&'') (u_rawquery u)))\<rparr>"

end
