(* ===== verification/World.thy ===== *)
theory World
  imports Errors Url "HOL-Library.Word"
begin

text \<open>
  The outside of the program as an explicit state, and the effects as functions on it. A \<open>world\<close>
  holds the file system (directory entries that name inodes, inodes with contents and
  attributes), the advisory locks, the context's error, the random source, the servers' answers
  and the effects performed so far. Everything that other processes, the operating system and
  the clock can do between two calls of the program is a script: the list of \<open>env_step\<close>s, one
  consumed by every system call, each a list of actions of the environment and possibly a fault
  that makes the call fail. A theorem about every script is a theorem about every interleaving
  and every failure. An empty script is a quiet environment in which no call fails.
\<close>

section \<open>State\<close>

datatype node_kind = Regular | Directory | Symlink | Irregular

record node =
  n_kind :: node_kind
  n_content :: bytes
  n_perm :: nat
  n_attrs :: "32 word" \<comment> \<open>the file attributes of Windows\<close>

text \<open>
  A stream is what successive \<^verbatim>\<open>Read\<close> calls return: bytes, possibly an error with them, the
  milliseconds the call took, and the milliseconds the reading program let pass before it, since
  the previous \<^verbatim>\<open>Read\<close> returned. The end of the list is the end of the input.
\<close>

record read_event =
  rv_data :: bytes
  rv_err :: "gerror option"
  rv_delay :: nat
  rv_gap :: nat

type_synonym stream = "read_event list"

record response =
  r_status :: int
  r_status_text :: string
  r_content_length :: int
  r_link :: string
  r_delay :: nat
  r_body :: stream

datatype reply =
    TransportError gerror
  | Redirect url nat \<comment> \<open>the resolved \<^verbatim>\<open>Location\<close> and the milliseconds the answer took\<close>
  | Response response

datatype env_act =
    EnvPut path node
  | EnvWrite path bytes
  | EnvRemove path
  | EnvRename path path
  | EnvCancel gerror
  | EnvFlock path nat
  | EnvFunlock path
  | EnvExe string
  | EnvLink string path

record env_step =
  acts :: "env_act list"
  fault :: "gerror option"
  partial :: nat

datatype effect =
    ERename path path bytes
  | ERemove path
  | EChmod nat nat
  | ERequest url bool
  | EProgress int int

record world =
  dirents :: "(path \<times> nat) list"
  inodes :: "(nat \<times> node) list"
  next_ino :: nat
  exe_name :: string
  exe_abs :: "string \<Rightarrow> string"
  exe_links :: "(string \<times> path) list"
  ctx_err :: "gerror option"
  script :: "env_step list"
  rand_fn :: "nat \<Rightarrow> char"
  rand_pos :: nat
  replies :: "reply list"
  flocks :: "(nat \<times> nat) list"
  effects :: "effect list"

definition plain_node :: "bytes \<Rightarrow> nat \<Rightarrow> node" where
  "plain_node bs perm =
     \<lparr>n_kind = Regular, n_content = bs, n_perm = perm, n_attrs = 0\<rparr>"

definition lookup :: "world \<Rightarrow> path \<Rightarrow> nat option" where
  "lookup w p = map_of (dirents w) p"

definition node_of :: "world \<Rightarrow> nat \<Rightarrow> node option" where
  "node_of w i = map_of (inodes w) i"

definition node_at :: "world \<Rightarrow> path \<Rightarrow> node option" where
  "node_at w p = (case lookup w p of None \<Rightarrow> None | Some i \<Rightarrow> node_of w i)"

definition add_node :: "path \<Rightarrow> node \<Rightarrow> world \<Rightarrow> world" where
  "add_node p nd w =
     w\<lparr>dirents := AList.update p (next_ino w) (dirents w),
       inodes := (next_ino w, nd) # inodes w,
       next_ino := Suc (next_ino w)\<rparr>"

definition set_node :: "nat \<Rightarrow> (node \<Rightarrow> node) \<Rightarrow> world \<Rightarrow> world" where
  "set_node i f w = w\<lparr>inodes := AList.map_entry i f (inodes w)\<rparr>"

definition del_name :: "path \<Rightarrow> world \<Rightarrow> world" where
  "del_name p w = w\<lparr>dirents := AList.delete p (dirents w)\<rparr>"

definition move_name :: "path \<Rightarrow> path \<Rightarrow> world \<Rightarrow> world" where
  "move_name a b w =
     (case lookup w a of
        None \<Rightarrow> w
      | Some i \<Rightarrow> w\<lparr>dirents := AList.update b i (AList.delete a (dirents w))\<rparr>)"

definition emit :: "effect \<Rightarrow> world \<Rightarrow> world" where
  "emit e w = w\<lparr>effects := e # effects w\<rparr>"

fun run_act :: "env_act \<Rightarrow> world \<Rightarrow> world" where
  "run_act (EnvPut p nd) w = add_node p nd w"
| "run_act (EnvWrite p bs) w =
     (case lookup w p of None \<Rightarrow> w | Some i \<Rightarrow> set_node i (\<lambda>nd. nd\<lparr>n_content := bs\<rparr>) w)"
| "run_act (EnvRemove p) w = del_name p w"
| "run_act (EnvRename a b) w = move_name a b w"
| "run_act (EnvCancel e) w =
     w\<lparr>ctx_err := Some (case ctx_err w of None \<Rightarrow> e | Some e' \<Rightarrow> e')\<rparr>"
| "run_act (EnvFlock p pid) w =
     (case lookup w p of
        None \<Rightarrow> w
      | Some i \<Rightarrow> if map_of (flocks w) i = None then w\<lparr>flocks := (i, Suc pid) # flocks w\<rparr> else w)"
| "run_act (EnvFunlock p) w =
     (case lookup w p of
        None \<Rightarrow> w
      | Some i \<Rightarrow> w\<lparr>flocks := filter (\<lambda>(j, pid). j \<noteq> i \<or> pid = 0) (flocks w)\<rparr>)"
| "run_act (EnvExe s) w = w\<lparr>exe_name := s\<rparr>"
| "run_act (EnvLink s p) w = w\<lparr>exe_links := AList.update s p (exe_links w)\<rparr>"

definition run_acts :: "env_act list \<Rightarrow> world \<Rightarrow> world" where
  "run_acts xs w = fold run_act xs w"

definition quiet_step :: env_step where
  "quiet_step = \<lparr>acts = [], fault = None, partial = 0\<rparr>"

text \<open>The environment's step before a system call.\<close>

definition next_step :: "world \<Rightarrow> env_step \<times> world" where
  "next_step w =
     (case script w of
        [] \<Rightarrow> (quiet_step, w)
      | s # ss \<Rightarrow> (s, run_acts (acts s) (w\<lparr>script := ss\<rparr>)))"

section \<open>The effect monad\<close>

text \<open>
  A call that returns \<^verbatim>\<open>(T, error)\<close> and is followed by \<^verbatim>\<open>if err != nil { return }\<close> is a function from
  the world to an error or a value, and the new world.
\<close>

type_synonym 'a io = "world \<Rightarrow> (gerror + 'a) \<times> world"

definition ret :: "'a \<Rightarrow> 'a io" where
  "ret a w = (Inr a, w)"

definition fail :: "gerror \<Rightarrow> 'a io" where
  "fail e w = (Inl e, w)"

definition bindE :: "'a io \<Rightarrow> ('a \<Rightarrow> 'b io) \<Rightarrow> 'b io" where
  "bindE m k w = (case m w of (Inl e, w') \<Rightarrow> (Inl e, w') | (Inr a, w') \<Rightarrow> k a w')"

definition thenE :: "'a io \<Rightarrow> 'b io \<Rightarrow> 'b io" where
  "thenE m k = bindE m (\<lambda>_. k)"

text \<open>\<^verbatim>\<open>if err != nil { ... }\<close> with a handler that may itself return a value.\<close>

definition handleE :: "'a io \<Rightarrow> (gerror \<Rightarrow> 'a io) \<Rightarrow> 'a io" where
  "handleE m h w = (case m w of (Inl e, w') \<Rightarrow> h e w' | (Inr a, w') \<Rightarrow> (Inr a, w'))"

definition wrapE :: "string \<Rightarrow> garg list \<Rightarrow> 'a io \<Rightarrow> 'a io" where
  "wrapE f args m = handleE m (\<lambda>e. fail (Wrapf f args e))"

definition guardE :: "bool \<Rightarrow> gerror \<Rightarrow> unit io" where
  "guardE b e = (if b then ret () else fail e)"

definition liftE :: "gerror + 'a \<Rightarrow> 'a io" where
  "liftE r = (case r of Inl e \<Rightarrow> fail e | Inr a \<Rightarrow> ret a)"

text \<open>Reading a component of the world, which is never an effect.\<close>

definition askE :: "(world \<Rightarrow> 'a) \<Rightarrow> 'a io" where
  "askE f w = (Inr (f w), w)"

text \<open>A deferred call whose own error is ignored (\<^verbatim>\<open>defer func() { _ = file.Close() }()\<close>).\<close>

definition finallyE :: "'a io \<Rightarrow> unit io \<Rightarrow> 'a io" where
  "finallyE m c w = (case m w of (r, w') \<Rightarrow> (r, snd (c w')))"

text \<open>A deferred call that closes, and, unless the body succeeded, also removes; errors are dropped.\<close>

definition deferE :: "'a io \<Rightarrow> unit io \<Rightarrow> unit io \<Rightarrow> 'a io" where
  "deferE m c r w =
     (case m w of
        (Inr p, w1) \<Rightarrow> (Inr p, snd (c w1))
      | (Inl e, w1) \<Rightarrow> (Inl e, snd (r (snd (c w1)))))"

text \<open>A system call: the environment moves, then the call fails or runs.\<close>

definition syscall :: "'a io \<Rightarrow> 'a io" where
  "syscall m w =
     (case next_step w of (s, w') \<Rightarrow>
        (case fault s of Some e \<Rightarrow> (Inl e, w') | None \<Rightarrow> m w'))"

definition ctx_check :: "unit io" where
  "ctx_check w = (case ctx_err w of Some e \<Rightarrow> (Inl e, w) | None \<Rightarrow> (Inr (), w))"

text \<open>
  Calls whose error is not simply returned, in functions that return a value and an error side by
  side: both outcomes have a continuation.
\<close>

type_synonym 'a prog = "world \<Rightarrow> 'a \<times> world"

definition give :: "'a \<Rightarrow> 'a prog" where
  "give a w = (a, w)"

definition tryE :: "'a io \<Rightarrow> (gerror \<Rightarrow> 'b prog) \<Rightarrow> ('a \<Rightarrow> 'b prog) \<Rightarrow> 'b prog" where
  "tryE m h k w = (case m w of (Inl e, w') \<Rightarrow> h e w' | (Inr a, w') \<Rightarrow> k a w')"

lemmas io_defs = ret_def fail_def bindE_def thenE_def handleE_def wrapE_def guardE_def liftE_def
  askE_def finallyE_def syscall_def ctx_check_def give_def tryE_def

text \<open>A world with nothing in it, for the witnesses.\<close>

definition empty_world :: world where
  "empty_world =
     \<lparr>dirents = [], inodes = [], next_ino = 0, exe_name = [], exe_abs = (\<lambda>s. s), exe_links = [],
      ctx_err = None, script = [], rand_fn = (\<lambda>_. CHR 0x00), rand_pos = 0, replies = [], flocks = [],
      effects = []\<rparr>"

end
