(* ===== verification/Filesystem.thy ===== *)
theory Filesystem
  imports World
begin

text \<open>
  The operating system calls the program makes (\<^verbatim>\<open>os\<close>, \<^verbatim>\<open>crypto/rand\<close>), the Hoare logic of the effect
  monad, the well-formedness invariant of the file system and the frame facts: what a step of
  the environment that avoids a set of names, and what each call, can change.
\<close>

section \<open>Hoare triples\<close>

text \<open>
  \<open>hoare P m Q E\<close>: from a world with \<open>P\<close>, \<open>m\<close> returns a value with \<open>Q\<close> or an error with \<open>E\<close>.
  Every effect is total, so this is total correctness.
\<close>

definition hoare ::
  "(world \<Rightarrow> bool) \<Rightarrow> 'a io \<Rightarrow> ('a \<Rightarrow> world \<Rightarrow> bool) \<Rightarrow> (gerror \<Rightarrow> world \<Rightarrow> bool) \<Rightarrow> bool" where
  "hoare P m Q E \<longleftrightarrow>
     (\<forall>w. P w \<longrightarrow> (case m w of (Inl e, w') \<Rightarrow> E e w' | (Inr a, w') \<Rightarrow> Q a w'))"

text \<open>\<open>preserves P m\<close>: the assertion survives the call, whatever it returns.\<close>

abbreviation preserves :: "(world \<Rightarrow> bool) \<Rightarrow> 'a io \<Rightarrow> bool" where
  "preserves P m \<equiv> hoare P m (\<lambda>_. P) (\<lambda>_. P)"

lemma hoareI:
  "(\<And>w a w'. P w \<Longrightarrow> m w = (Inr a, w') \<Longrightarrow> Q a w') \<Longrightarrow>
   (\<And>w e w'. P w \<Longrightarrow> m w = (Inl e, w') \<Longrightarrow> E e w') \<Longrightarrow> hoare P m Q E"
  by (auto simp: hoare_def split: prod.splits sum.splits)

lemma hoareD_ok: "hoare P m Q E \<Longrightarrow> P w \<Longrightarrow> m w = (Inr a, w') \<Longrightarrow> Q a w'"
  by (fastforce simp: hoare_def)

lemma hoareD_err: "hoare P m Q E \<Longrightarrow> P w \<Longrightarrow> m w = (Inl e, w') \<Longrightarrow> E e w'"
  by (fastforce simp: hoare_def)

lemma hoare_weaken:
  "hoare P m Q E \<Longrightarrow> (\<And>w. P' w \<Longrightarrow> P w) \<Longrightarrow> (\<And>a w. Q a w \<Longrightarrow> Q' a w) \<Longrightarrow>
   (\<And>e w. E e w \<Longrightarrow> E' e w) \<Longrightarrow> hoare P' m Q' E'"
  by (fastforce simp: hoare_def split: prod.splits sum.splits)

lemma hoare_pre: "hoare P m Q E \<Longrightarrow> (\<And>w. P' w \<Longrightarrow> P w) \<Longrightarrow> hoare P' m Q E"
  by (erule hoare_weaken) auto

text \<open>A fact that does not speak of the world moves out of the assertion.\<close>

lemma hoare_fact: "(b \<Longrightarrow> hoare P m Q E) \<Longrightarrow> hoare (\<lambda>w. P w \<and> b) m Q E"
  by (auto simp: hoare_def)

lemma hoare_conj:
  "hoare P m Q E \<Longrightarrow> hoare P' m Q' E' \<Longrightarrow>
   hoare (\<lambda>w. P w \<and> P' w) m (\<lambda>a w. Q a w \<and> Q' a w) (\<lambda>e w. E e w \<and> E' e w)"
  by (fastforce simp: hoare_def split: prod.splits sum.splits)

lemma hoare_ret [hoare_rules]: "(\<And>w. P w \<Longrightarrow> Q a w) \<Longrightarrow> hoare P (ret a) Q E"
  by (simp add: hoare_def ret_def)

lemma hoare_fail [hoare_rules]: "(\<And>w. P w \<Longrightarrow> E e w) \<Longrightarrow> hoare P (fail e) Q E"
  by (simp add: hoare_def fail_def)

lemma hoare_bind [hoare_rules]:
  "hoare P m R E \<Longrightarrow> (\<And>a. hoare (R a) (k a) Q E) \<Longrightarrow> hoare P (bindE m k) Q E"
  by (fastforce simp: hoare_def bindE_def split: prod.splits sum.splits)

lemma hoare_then [hoare_rules]:
  "hoare P m (\<lambda>_. R) E \<Longrightarrow> hoare R k Q E \<Longrightarrow> hoare P (thenE m k) Q E"
  unfolding thenE_def by (rule hoare_bind)

lemma hoare_handle [hoare_rules]:
  "hoare P m Q F \<Longrightarrow> (\<And>e. hoare (F e) (h e) Q E) \<Longrightarrow> hoare P (handleE m h) Q E"
  by (fastforce simp: hoare_def handleE_def split: prod.splits sum.splits)

lemma hoare_wrap:
  "hoare P m Q (\<lambda>e. E (Wrapf f args e)) \<Longrightarrow> hoare P (wrapE f args m) Q E"
  by (fastforce simp: hoare_def wrapE_def handleE_def fail_def split: prod.splits sum.splits)

lemma hoare_wrap_any [hoare_rules]:
  "hoare P m Q (\<lambda>_. E) \<Longrightarrow> hoare P (wrapE f args m) Q (\<lambda>_. E)"
  by (rule hoare_wrap)

lemma hoare_guard [hoare_rules]:
  "(\<And>w. P w \<Longrightarrow> b \<Longrightarrow> Q () w) \<Longrightarrow> (\<And>w. P w \<Longrightarrow> \<not> b \<Longrightarrow> E e w) \<Longrightarrow> hoare P (guardE b e) Q E"
  by (simp add: hoare_def guardE_def ret_def fail_def)

lemma hoare_lift:
  "(\<And>w a. P w \<Longrightarrow> r = Inr a \<Longrightarrow> Q a w) \<Longrightarrow> (\<And>w e. P w \<Longrightarrow> r = Inl e \<Longrightarrow> E e w) \<Longrightarrow>
   hoare P (liftE r) Q E"
  by (cases r) (simp_all add: hoare_def liftE_def ret_def fail_def)

lemma hoare_ask: "(\<And>w. P w \<Longrightarrow> Q (f w) w) \<Longrightarrow> hoare P (askE f) Q E"
  by (simp add: hoare_def askE_def)

lemma hoare_if [hoare_rules]:
  "(b \<Longrightarrow> hoare P m Q E) \<Longrightarrow> (\<not> b \<Longrightarrow> hoare P k Q E) \<Longrightarrow> hoare P (if b then m else k) Q E"
  by simp

lemma hoare_finally:
  assumes "hoare P m R F"
    and "\<And>a. hoare (R a) c (\<lambda>_. Q a) (\<lambda>_. Q a)"
    and "\<And>e. hoare (F e) c (\<lambda>_. E e) (\<lambda>_. E e)"
  shows "hoare P (finallyE m c) Q E"
  unfolding hoare_def finallyE_def
proof (intro allI impI)
  fix w
  assume "P w"
  obtain r w1 where m: "m w = (r, w1)" by (cases "m w")
  obtain r2 w2 where c: "c w1 = (r2, w2)" by (cases "c w1")
  show "case case m w of (r, w') \<Rightarrow> (r, snd (c w')) of
          (Inl e, w') \<Rightarrow> E e w' | (Inr a, w') \<Rightarrow> Q a w'"
  proof (cases r)
    case (Inl e)
    with assms(1) \<open>P w\<close> m have "F e w1" by (auto dest: hoareD_err)
    with assms(3) [of e] c have "E e w2" by (cases r2) (auto simp: hoare_def)
    with m c Inl show ?thesis by simp
  next
    case (Inr a)
    with assms(1) \<open>P w\<close> m have "R a w1" by (auto dest: hoareD_ok)
    with assms(2) [of a] c have "Q a w2" by (cases r2) (auto simp: hoare_def)
    with m c Inr show ?thesis by simp
  qed
qed

text \<open>A call whose result is ignored.\<close>

lemma hoare_snd: "hoare P m (\<lambda>_. Q) (\<lambda>_. Q) \<Longrightarrow> P w \<Longrightarrow> Q (snd (m w))"
  by (cases "m w") (auto simp: hoare_def split: sum.splits)

lemma hoare_defer:
  assumes "hoare P m R F"
    and "\<And>a. hoare (R a) c (\<lambda>_. Q a) (\<lambda>_. Q a)"
    and "\<And>e. hoare (F e) c (\<lambda>_. G e) (\<lambda>_. G e)"
    and "\<And>e. hoare (G e) r (\<lambda>_. E e) (\<lambda>_. E e)"
  shows "hoare P (deferE m c r) Q E"
proof (rule hoareI)
  fix w a w'
  assume "P w" "deferE m c r w = (Inr a, w')"
  then obtain w1 where "m w = (Inr a, w1)" "w' = snd (c w1)"
    by (auto simp: deferE_def split: prod.splits sum.splits)
  with \<open>P w\<close> assms(1) hoare_snd [OF assms(2)] show "Q a w'"
    by (auto dest: hoareD_ok)
next
  fix w e w'
  assume "P w" "deferE m c r w = (Inl e, w')"
  then obtain w1 where "m w = (Inl e, w1)" "w' = snd (r (snd (c w1)))"
    by (auto simp: deferE_def split: prod.splits sum.splits)
  with \<open>P w\<close> assms(1) hoare_snd [OF assms(4) hoare_snd [OF assms(3)]] show "E e w'"
    by (auto dest: hoareD_err)
qed

lemma hoare_ctx_check [hoare_rules]:
  "(\<And>w. P w \<Longrightarrow> ctx_err w = None \<Longrightarrow> Q () w) \<Longrightarrow>
   (\<And>w e. P w \<Longrightarrow> ctx_err w = Some e \<Longrightarrow> E e w) \<Longrightarrow> hoare P ctx_check Q E"
  by (simp add: hoare_def ctx_check_def split: option.splits)

lemma ctx_check_local: "preserves A ctx_check"
  by (simp add: hoare_def ctx_check_def split: option.split)

text \<open>A system call: the assertion must survive the environment's step; then a fault or the body.\<close>

lemma hoare_syscall:
  assumes "\<And>w s w'. P w \<Longrightarrow> next_step w = (s, w') \<Longrightarrow> P' w'"
    and "\<And>w e. P' w \<Longrightarrow> E e w"
    and "hoare P' m Q E"
  shows "hoare P (syscall m) Q E"
  unfolding hoare_def syscall_def
proof (intro allI impI)
  fix w
  assume "P w"
  obtain s w' where ns: "next_step w = (s, w')" by (cases "next_step w")
  with \<open>P w\<close> have P': "P' w'" by (rule assms(1))
  show "case case next_step w of (s, w') \<Rightarrow>
          (case fault s of None \<Rightarrow> m w' | Some e \<Rightarrow> (Inl e, w')) of
        (Inl e, w') \<Rightarrow> E e w' | (Inr a, w') \<Rightarrow> Q a w'"
    using assms(2) [OF P'] assms(3) P' ns
    by (auto simp: hoare_def split: option.split)
qed

text \<open>The triples of functions that return a value and an error side by side.\<close>

definition triple :: "(world \<Rightarrow> bool) \<Rightarrow> 'a prog \<Rightarrow> ('a \<Rightarrow> world \<Rightarrow> bool) \<Rightarrow> bool" where
  "triple P m Q \<longleftrightarrow> (\<forall>w. P w \<longrightarrow> (case m w of (a, w') \<Rightarrow> Q a w'))"

lemma triple_give: "(\<And>w. P w \<Longrightarrow> Q a w) \<Longrightarrow> triple P (give a) Q"
  by (simp add: triple_def give_def)

lemma triple_try:
  "hoare P m R F \<Longrightarrow> (\<And>e. triple (F e) (h e) Q) \<Longrightarrow> (\<And>a. triple (R a) (k a) Q) \<Longrightarrow>
   triple P (tryE m h k) Q"
  by (fastforce simp: hoare_def triple_def tryE_def split: prod.splits sum.splits)

lemma hoare_try:
  "hoare P m R F \<Longrightarrow> (\<And>e. hoare (F e) (h e) Q E) \<Longrightarrow> (\<And>a. hoare (R a) (k a) Q E) \<Longrightarrow>
   hoare P (tryE m h k) Q E"
  by (fastforce simp: hoare_def tryE_def split: prod.splits sum.splits)

lemma triple_if:
  "(b \<Longrightarrow> triple P m Q) \<Longrightarrow> (\<not> b \<Longrightarrow> triple P k Q) \<Longrightarrow> triple P (if b then m else k) Q"
  by simp

lemma triple_weaken:
  "triple P m Q \<Longrightarrow> (\<And>w. P' w \<Longrightarrow> P w) \<Longrightarrow> (\<And>a w. Q a w \<Longrightarrow> Q' a w) \<Longrightarrow> triple P' m Q'"
  by (fastforce simp: triple_def split: prod.splits)

lemma tripleD: "triple P m Q \<Longrightarrow> P w \<Longrightarrow> m w = (a, w') \<Longrightarrow> Q a w'"
  by (auto simp: triple_def)

section \<open>When a call succeeds\<close>

lemma bindE_Inr: "bindE m k w = (Inr b, w') \<longleftrightarrow> (\<exists>a w1. m w = (Inr a, w1) \<and> k a w1 = (Inr b, w'))"
  by (auto simp: bindE_def split: prod.splits sum.splits)

lemma wrapE_Inr: "wrapE f a m w = (Inr b, w') \<longleftrightarrow> m w = (Inr b, w')"
  by (auto simp: wrapE_def handleE_def fail_def split: prod.splits sum.splits)

lemma thenE_Inr: "thenE m k w = (Inr b, w') \<longleftrightarrow> (\<exists>a w1. m w = (Inr a, w1) \<and> k w1 = (Inr b, w'))"
  by (simp add: thenE_def bindE_Inr)

lemma fail_Inr: "fail e w \<noteq> (Inr b, w')"
  by (simp add: fail_def)

lemma ret_Inr: "ret a w = (Inr b, w') \<longleftrightarrow> a = b \<and> w = w'"
  by (simp add: ret_def)

lemma liftE_Inr: "liftE r w = (Inr b, w') \<longleftrightarrow> r = Inr b \<and> w' = w"
  by (cases r) (auto simp: liftE_def fail_def ret_def)

lemma if_Inr: "(if c then m else k) w = (Inr b, w') \<longleftrightarrow> (if c then m w = (Inr b, w') else k w = (Inr b, w'))"
  by simp

lemmas Inr_simps = bindE_Inr wrapE_Inr thenE_Inr fail_Inr ret_Inr liftE_Inr

section \<open>Well-formed file systems\<close>

text \<open>
  No name is listed twice, a name leads to an inode that exists, no two names share an inode
  (the program makes no hard links) and inode numbers are below the next fresh one.
\<close>

definition wf_world :: "world \<Rightarrow> bool" where
  "wf_world w \<longleftrightarrow>
     distinct (map fst (dirents w))
     \<and> (\<forall>p i. lookup w p = Some i \<longrightarrow> node_of w i \<noteq> None)
     \<and> (\<forall>p q i. lookup w p = Some i \<and> lookup w q = Some i \<longrightarrow> p = q)
     \<and> (\<forall>i. node_of w i \<noteq> None \<longrightarrow> i < next_ino w)"

lemma wf_inj: "wf_world w \<Longrightarrow> lookup w p = Some i \<Longrightarrow> lookup w q = Some i \<Longrightarrow> p = q"
  by (auto simp: wf_world_def)

lemma wf_node: "wf_world w \<Longrightarrow> lookup w p = Some i \<Longrightarrow> \<exists>nd. node_of w i = Some nd"
  by (auto simp: wf_world_def)

lemma wf_fresh: "wf_world w \<Longrightarrow> lookup w p \<noteq> Some (next_ino w)"
  by (metis less_irrefl wf_world_def)

lemma wf_fresh_node: "wf_world w \<Longrightarrow> node_of w (next_ino w) = None"
  by (metis less_irrefl wf_world_def)

text \<open>How the primitive updates read back.\<close>

lemma lookup_add_node [simp]:
  "lookup (add_node p nd w) q = (if q = p then Some (next_ino w) else lookup w q)"
  by (simp add: lookup_def add_node_def update_conv')

lemma node_of_add_node [simp]:
  "node_of (add_node p nd w) i = (if i = next_ino w then Some nd else node_of w i)"
  by (simp add: node_of_def add_node_def)

lemma lookup_set_node [simp]: "lookup (set_node i f w) q = lookup w q"
  by (simp add: lookup_def set_node_def)

lemma node_of_set_node [simp]:
  "node_of (set_node i f w) j = (if j = i then map_option f (node_of w i) else node_of w j)"
  by (auto simp: node_of_def set_node_def AList.map_of_map_entry split: option.splits)

lemma lookup_del_name [simp]: "lookup (del_name p w) q = (if q = p then None else lookup w q)"
  by (simp add: lookup_def del_name_def delete_conv')

lemma node_of_del_name [simp]: "node_of (del_name p w) = node_of w"
  by (simp add: node_of_def [abs_def] del_name_def)

lemma lookup_move_name [simp]:
  "lookup (move_name a b w) q =
     (case lookup w a of
        None \<Rightarrow> lookup w q
      | Some i \<Rightarrow> if q = b then Some i else if q = a then None else lookup w q)"
  by (simp add: lookup_def move_name_def update_conv' delete_conv' split: option.splits)

lemma node_of_move_name [simp]: "node_of (move_name a b w) = node_of w"
  by (simp add: node_of_def [abs_def] move_name_def split: option.splits)

text \<open>Fields outside the file system do not matter to it.\<close>

lemma fs_cong:
  assumes "dirents w' = dirents w" "inodes w' = inodes w"
  shows "lookup w' = lookup w" "node_of w' = node_of w" "node_at w' = node_at w"
  using assms by (simp_all add: lookup_def node_of_def node_at_def fun_eq_iff split: option.split)

lemma wf_world_cong:
  assumes "dirents w' = dirents w" "inodes w' = inodes w" "next_ino w' = next_ino w"
  shows "wf_world w' = wf_world w"
  using fs_cong [OF assms(1,2)] assms(1,3) by (simp add: wf_world_def)

lemma fs_other [simp]:
  "lookup (w\<lparr>script := x0\<rparr>) = lookup w" "node_of (w\<lparr>script := x0\<rparr>) = node_of w"
  "node_at (w\<lparr>script := x0\<rparr>) = node_at w" "wf_world (w\<lparr>script := x0\<rparr>) = wf_world w"
  "lookup (w\<lparr>ctx_err := x1\<rparr>) = lookup w" "node_of (w\<lparr>ctx_err := x1\<rparr>) = node_of w"
  "node_at (w\<lparr>ctx_err := x1\<rparr>) = node_at w" "wf_world (w\<lparr>ctx_err := x1\<rparr>) = wf_world w"
  "lookup (w\<lparr>flocks := x2\<rparr>) = lookup w" "node_of (w\<lparr>flocks := x2\<rparr>) = node_of w"
  "node_at (w\<lparr>flocks := x2\<rparr>) = node_at w" "wf_world (w\<lparr>flocks := x2\<rparr>) = wf_world w"
  "lookup (w\<lparr>exe_name := x3\<rparr>) = lookup w" "node_of (w\<lparr>exe_name := x3\<rparr>) = node_of w"
  "node_at (w\<lparr>exe_name := x3\<rparr>) = node_at w" "wf_world (w\<lparr>exe_name := x3\<rparr>) = wf_world w"
  "lookup (w\<lparr>exe_links := x4\<rparr>) = lookup w" "node_of (w\<lparr>exe_links := x4\<rparr>) = node_of w"
  "node_at (w\<lparr>exe_links := x4\<rparr>) = node_at w" "wf_world (w\<lparr>exe_links := x4\<rparr>) = wf_world w"
  "lookup (w\<lparr>rand_pos := x5\<rparr>) = lookup w" "node_of (w\<lparr>rand_pos := x5\<rparr>) = node_of w"
  "node_at (w\<lparr>rand_pos := x5\<rparr>) = node_at w" "wf_world (w\<lparr>rand_pos := x5\<rparr>) = wf_world w"
  "lookup (w\<lparr>replies := x6\<rparr>) = lookup w" "node_of (w\<lparr>replies := x6\<rparr>) = node_of w"
  "node_at (w\<lparr>replies := x6\<rparr>) = node_at w" "wf_world (w\<lparr>replies := x6\<rparr>) = wf_world w"
  "lookup (w\<lparr>effects := x7\<rparr>) = lookup w" "node_of (w\<lparr>effects := x7\<rparr>) = node_of w"
  "node_at (w\<lparr>effects := x7\<rparr>) = node_at w" "wf_world (w\<lparr>effects := x7\<rparr>) = wf_world w"
  by (rule fs_cong wf_world_cong; simp)+

lemma fs_emit [simp]:
  "lookup (emit e w) = lookup w" "node_at (emit e w) = node_at w"
  "node_of (emit e w) = node_of w" "wf_world (emit e w) = wf_world w"
  "script (emit e w) = script w" "effects (emit e w) = e # effects w"
  "ctx_err (emit e w) = ctx_err w" "flocks (emit e w) = flocks w"
  by (simp_all add: emit_def)

lemma wf_add_node [wf_rules]:
  assumes "wf_world w"
  shows "wf_world (add_node p nd w)"
proof -
  have "distinct (map fst (dirents (add_node p nd w)))"
    using assms by (simp add: add_node_def distinct_update wf_world_def)
  moreover have "next_ino (add_node p nd w) = Suc (next_ino w)"
    by (simp add: add_node_def)
  ultimately show ?thesis
    using assms wf_fresh [OF assms] unfolding wf_world_def
    by (auto simp: less_Suc_eq)
qed

lemma wf_set_node [wf_rules]: "wf_world w \<Longrightarrow> wf_world (set_node i f w)"
  unfolding wf_world_def lookup_set_node node_of_set_node by (auto simp: set_node_def)

lemma wf_del_name [wf_rules]: "wf_world w \<Longrightarrow> wf_world (del_name p w)"
  unfolding wf_world_def lookup_del_name node_of_del_name
  by (auto simp: del_name_def distinct_delete)

lemma wf_move_name [wf_rules]: 
  assumes "wf_world w"
  shows "wf_world (move_name a b w)"
proof (cases "lookup w a")
  case None
  with assms show ?thesis by (simp add: move_name_def)
next
  case (Some i)
  have "distinct (map fst (dirents (move_name a b w)))" "next_ino (move_name a b w) = next_ino w"
    using assms Some by (auto simp: move_name_def distinct_update distinct_delete wf_world_def)
  then show ?thesis
    using assms Some unfolding wf_world_def by (auto split: if_splits)
qed

section \<open>What the environment can change\<close>

fun touches :: "env_act \<Rightarrow> path list" where
  "touches (EnvPut p nd) = [p]"
| "touches (EnvWrite p bs) = [p]"
| "touches (EnvRemove p) = [p]"
| "touches (EnvRename a b) = [a, b]"
| "touches _ = []"

definition act_avoids :: "(path \<Rightarrow> bool) \<Rightarrow> env_act \<Rightarrow> bool" where
  "act_avoids S a \<longleftrightarrow> list_all (\<lambda>p. \<not> S p) (touches a)"

text \<open>No action of the script, now or later, is on a name in \<open>S\<close>.\<close>

definition env_avoids :: "(path \<Rightarrow> bool) \<Rightarrow> world \<Rightarrow> bool" where
  "env_avoids S w \<longleftrightarrow> list_all (\<lambda>s. list_all (act_avoids S) (acts s)) (script w)"

definition stable_env :: "(path \<Rightarrow> bool) \<Rightarrow> world \<Rightarrow> bool" where
  "stable_env S w \<longleftrightarrow> wf_world w \<and> env_avoids S w"

text \<open>
  Two worlds agree on the names in \<open>S\<close> and on the effects performed, and the second has not
  more of the script before it.
\<close>

definition same_on :: "(path \<Rightarrow> bool) \<Rightarrow> world \<Rightarrow> world \<Rightarrow> bool" where
  "same_on S w w' \<longleftrightarrow>
     (\<forall>p. S p \<longrightarrow> lookup w' p = lookup w p \<and> node_at w' p = node_at w p)
     \<and> effects w' = effects w \<and> suffix (script w') (script w)"

lemma same_on_refl [simp]: "same_on S w w"
  by (simp add: same_on_def)

lemma same_on_trans: "same_on S w1 w2 \<Longrightarrow> same_on S w2 w3 \<Longrightarrow> same_on S w1 w3"
  by (auto simp: same_on_def intro: suffix_order.trans)

lemma node_at_add_node:
  "wf_world w \<Longrightarrow> node_at (add_node p nd w) q = (if q = p then Some nd else node_at w q)"
  using wf_fresh [of w q] by (auto simp: node_at_def split: option.splits)

lemma node_at_set_node:
  assumes "wf_world w" "lookup w p = Some i"
  shows "node_at (set_node i f w) q = (if q = p then map_option f (node_at w p) else node_at w q)"
  using assms(2) wf_inj [OF assms(1) _ assms(2), of q]
  by (cases "lookup w q") (auto simp: node_at_def)

lemma node_at_del_name:
  "node_at (del_name p w) q = (if q = p then None else node_at w q)"
  by (simp add: node_at_def split: option.split)

lemma move_name_None: "lookup w a = None \<Longrightarrow> move_name a b w = w"
  by (simp add: move_name_def)

lemma node_at_move_name:
  "lookup w a = Some i \<Longrightarrow>
     node_at (move_name a b w) q =
       (if q = b then node_at w a else if q = a then None else node_at w q)"
  by (simp add: node_at_def split: option.split)

lemma run_act_wf [wf_rules]: "wf_world w \<Longrightarrow> wf_world (run_act a w)"
  by (cases a) (auto intro: wf_rules split: option.splits)

lemma effects_updates [simp]:
  "effects (add_node p nd w) = effects w" "effects (set_node i f w) = effects w"
  "effects (del_name p w) = effects w" "effects (move_name a b w) = effects w"
  "script (add_node p nd w) = script w" "script (set_node i f w) = script w"
  "script (del_name p w) = script w" "script (move_name a b w) = script w"
  by (simp_all add: add_node_def set_node_def del_name_def move_name_def split: option.splits)

lemma run_act_script [simp]:
  "script (run_act a w) = script w" "effects (run_act a w) = effects w"
  by (cases a; simp split: option.splits)+

lemma run_act_same:
  assumes "wf_world w" "act_avoids S a"
  shows "same_on S w (run_act a w)"
proof (cases a)
  case (EnvPut p nd)
  with assms show ?thesis by (auto simp: same_on_def act_avoids_def node_at_add_node)
next
  case (EnvWrite p bs)
  with assms show ?thesis
    by (auto simp: same_on_def act_avoids_def node_at_set_node split: option.splits)
next
  case (EnvRemove p)
  with assms show ?thesis by (auto simp: same_on_def act_avoids_def node_at_del_name)
next
  case (EnvRename a b)
  with assms show ?thesis
    by (cases "lookup w a")
      (auto simp: same_on_def act_avoids_def node_at_move_name move_name_None)
qed (simp_all add: same_on_def split: option.splits)

lemma run_acts_same:
  "wf_world w \<Longrightarrow> list_all (act_avoids S) xs \<Longrightarrow>
     wf_world (run_acts xs w) \<and> same_on S w (run_acts xs w) \<and> script (run_acts xs w) = script w"
proof (induction xs arbitrary: w)
  case Nil
  then show ?case by (simp add: run_acts_def)
next
  case (Cons a xs)
  have "wf_world (run_act a w)" "same_on S w (run_act a w)"
    using Cons.prems run_act_wf run_act_same by auto
  with Cons.IH [of "run_act a w"] Cons.prems show ?case
    by (auto simp: run_acts_def intro: same_on_trans)
qed

text \<open>The one fact about the environment that the component proofs use.\<close>

lemma next_step_frame:
  assumes "stable_env S w" "next_step w = (s, w')"
  shows "stable_env S w' \<and> same_on S w w'"
proof (cases "script w")
  case Nil
  with assms show ?thesis by (simp add: next_step_def)
next
  case (Cons s' ss)
  with assms have w': "w' = run_acts (acts s') (w\<lparr>script := ss\<rparr>)"
    by (auto simp: next_step_def)
  have av: "list_all (act_avoids S) (acts s')" "env_avoids S (w\<lparr>script := ss\<rparr>)"
    using assms(1) Cons by (simp_all add: stable_env_def env_avoids_def)
  have "wf_world (w\<lparr>script := ss\<rparr>)" using assms(1) by (simp add: stable_env_def)
  from run_acts_same [OF this av(1)] av(2) Cons show ?thesis
    unfolding w' stable_env_def env_avoids_def same_on_def by (simp add: suffix_ConsI)
qed

text \<open>Assertions that only speak of the names in \<open>S\<close> and of the effects.\<close>

definition local_to :: "(path \<Rightarrow> bool) \<Rightarrow> (world \<Rightarrow> bool) \<Rightarrow> bool" where
  "local_to S A \<longleftrightarrow> (\<forall>w w'. same_on S w w' \<longrightarrow> A w \<longrightarrow> A w')"

lemma local_toD: "local_to S A \<Longrightarrow> same_on S w w' \<Longrightarrow> A w \<Longrightarrow> A w'"
  by (auto simp: local_to_def)

lemma local_to_conj [intro]:
  "local_to S A \<Longrightarrow> local_to S B \<Longrightarrow> local_to S (\<lambda>w. A w \<and> B w)"
  by (auto simp: local_to_def)

lemma hoare_syscall_local:
  assumes "local_to S A"
    and "hoare (\<lambda>w. stable_env S w \<and> A w) m Q E"
    and "\<And>w e. stable_env S w \<Longrightarrow> A w \<Longrightarrow> E e w"
  shows "hoare (\<lambda>w. stable_env S w \<and> A w) (syscall m) Q E"
proof (rule hoare_syscall [OF _ _ assms(2)])
  fix w s w'
  assume "stable_env S w \<and> A w" "next_step w = (s, w')"
  then show "stable_env S w' \<and> A w'"
    using next_step_frame local_toD [OF assms(1)] by blast
qed (auto intro: assms(3))

section \<open>The calls of the operating system\<close>

datatype os_file = File (f_path: path) (f_ino: nat)

text \<open>\<^verbatim>\<open>os.OpenFile(p, os.O_CREATE|os.O_EXCL|flags, 0o600)\<close> and \<^verbatim>\<open>os.Open(p)\<close>\<close>

definition os_open_excl :: "path \<Rightarrow> os_file io" where
  "os_open_excl p = syscall (\<lambda>w.
     if lookup w p \<noteq> None then (Inl ErrExist, w)
     else (Inr (File p (next_ino w)), add_node p (plain_node [] 384) w))"

definition os_open :: "path \<Rightarrow> os_file io" where
  "os_open p = syscall (\<lambda>w.
     case lookup w p of None \<Rightarrow> (Inl ErrNotExist, w) | Some i \<Rightarrow> (Inr (File p i), w))"

definition os_stat :: "os_file \<Rightarrow> node io" where
  "os_stat f = syscall (\<lambda>w.
     case node_of w (f_ino f) of None \<Rightarrow> (Inl ErrNotExist, w) | Some nd \<Rightarrow> (Inr nd, w))"

definition os_lstat :: "path \<Rightarrow> node io" where
  "os_lstat p = syscall (\<lambda>w.
     case node_at w p of None \<Rightarrow> (Inl ErrNotExist, w) | Some nd \<Rightarrow> (Inr nd, w))"

text \<open>What the bytes of an open file are at this moment; the reads themselves come later.\<close>

definition os_content :: "os_file \<Rightarrow> bytes io" where
  "os_content f = syscall (\<lambda>w.
     (Inr (case node_of w (f_ino f) of None \<Rightarrow> [] | Some nd \<Rightarrow> n_content nd), w))"

text \<open>A write that fails may have written a part of the bytes.\<close>

definition os_write :: "os_file \<Rightarrow> bytes \<Rightarrow> unit io" where
  "os_write f bs w =
     (case next_step w of (s, w') \<Rightarrow>
        (case fault s of
           Some e \<Rightarrow>
             (Inl e, set_node (f_ino f) (\<lambda>nd. nd\<lparr>n_content := n_content nd @ take (partial s) bs\<rparr>) w')
         | None \<Rightarrow>
             (Inr (), set_node (f_ino f) (\<lambda>nd. nd\<lparr>n_content := n_content nd @ bs\<rparr>) w')))"

text \<open>\<^verbatim>\<open>Sync\<close>, \<^verbatim>\<open>Close\<close>, \<^verbatim>\<open>Seek\<close> and a directory's \<^verbatim>\<open>Sync\<close> change nothing the model keeps; they can fail.\<close>

definition os_sync :: "os_file \<Rightarrow> unit io" where
  "os_sync f = syscall (ret ())"

definition os_close :: "os_file \<Rightarrow> unit io" where
  "os_close f = syscall (ret ())"

text \<open>
  \<^verbatim>\<open>os.Open\<close> of a directory, to sync it. The directory of a path of the model always exists.
\<close>

definition os_open_dir :: "string \<Rightarrow> os_file io" where
  "os_open_dir d = syscall (ret (File (Path d []) 0))"

definition os_seek_start :: "os_file \<Rightarrow> unit io" where
  "os_seek_start f = syscall (ret ())"

definition os_chmod :: "os_file \<Rightarrow> nat \<Rightarrow> unit io" where
  "os_chmod f perm = syscall (\<lambda>w.
     (Inr (), emit (EChmod (f_ino f) perm) (set_node (f_ino f) (\<lambda>nd. nd\<lparr>n_perm := perm\<rparr>) w)))"

definition is_dir_node :: "node option \<Rightarrow> bool" where
  "is_dir_node n \<longleftrightarrow> (case n of None \<Rightarrow> False | Some nd \<Rightarrow> n_kind nd = Directory)"

definition content_at :: "world \<Rightarrow> path \<Rightarrow> bytes" where
  "content_at w p = (case node_at w p of None \<Rightarrow> [] | Some nd \<Rightarrow> n_content nd)"

text \<open>\<^verbatim>\<open>os.Rename\<close> replaces an existing file in one step and refuses to replace a directory.\<close>

definition os_rename :: "path \<Rightarrow> path \<Rightarrow> unit io" where
  "os_rename a b = syscall (\<lambda>w.
     if lookup w a = None then (Inl ErrNotExist, w)
     else if is_dir_node (node_at w b) then (Inl ErrExist, w)
     else (Inr (), emit (ERename a b (content_at w a)) (move_name a b w)))"

definition has_children :: "world \<Rightarrow> path \<Rightarrow> bool" where
  "has_children w p \<longleftrightarrow> list_ex (\<lambda>(q, i). dir_of q = path_string p) (dirents w)"

definition os_remove :: "path \<Rightarrow> unit io" where
  "os_remove p = syscall (\<lambda>w.
     if lookup w p = None then (Inl ErrNotExist, w)
     else if is_dir_node (node_at w p) \<and> has_children w p
     then (Inl (SysError ''directory not empty''), w)
     else (Inr (), emit (ERemove p) (del_name p w)))"

text \<open>\<^verbatim>\<open>os.ReadDir\<close>: the entries of a directory by name, with their types.\<close>

definition dir_entries :: "world \<Rightarrow> string \<Rightarrow> (string \<times> node_kind) list" where
  "dir_entries w d =
     sort_key fst
       (map (\<lambda>(p, i). (base_of p, case node_of w i of None \<Rightarrow> Irregular | Some nd \<Rightarrow> n_kind nd))
         (filter (\<lambda>(p, i). dir_of p = d) (dirents w)))"

definition os_read_dir :: "string \<Rightarrow> (string \<times> node_kind) list io" where
  "os_read_dir d = syscall (\<lambda>w. (Inr (dir_entries w d), w))"

text \<open>\<^verbatim>\<open>rand.Read(random[:])\<close> for a buffer of \<open>n\<close> bytes\<close>

definition rand_read :: "nat \<Rightarrow> bytes io" where
  "rand_read n = syscall (\<lambda>w.
     (Inr (map (rand_fn w) [rand_pos w ..< rand_pos w + n]), w\<lparr>rand_pos := rand_pos w + n\<rparr>))"

section \<open>Rules for the calls\<close>

abbreviation except :: "(path \<Rightarrow> bool) \<Rightarrow> path \<Rightarrow> path \<Rightarrow> bool" where
  "except S p \<equiv> (\<lambda>q. S q \<and> q \<noteq> p)"

text \<open>The open file is still the one its name leads to, and its node is \<open>nd\<close>.\<close>

definition file_at :: "os_file \<Rightarrow> node \<Rightarrow> world \<Rightarrow> bool" where
  "file_at f nd w \<longleftrightarrow> lookup w (f_path f) = Some (f_ino f) \<and> node_at w (f_path f) = Some nd"

lemma file_at_node: "file_at f nd w \<Longrightarrow> node_of w (f_ino f) = Some nd"
  by (auto simp: file_at_def node_at_def)

lemma local_file_at [simp, intro]: "S (f_path f) \<Longrightarrow> local_to S (file_at f nd)"
  by (simp add: local_to_def same_on_def file_at_def)

lemma local_ex_file: "S (f_path f) \<Longrightarrow> local_to S (\<lambda>w. \<exists>nd. P nd \<and> file_at f nd w)"
  by (simp add: local_to_def same_on_def file_at_def)

lemma local_True [simp, intro]: "local_to S (\<lambda>w. True)"
  by (simp add: local_to_def)

lemma local_except: "local_to (except S p) A \<Longrightarrow> local_to S A"
  by (auto simp: local_to_def same_on_def)

lemma stable_add_node: "stable_env S w \<Longrightarrow> stable_env S (add_node p nd w)"
  by (simp add: stable_env_def env_avoids_def wf_rules)

lemma stable_set_node: "stable_env S w \<Longrightarrow> stable_env S (set_node i f w)"
  by (simp add: stable_env_def env_avoids_def wf_rules)

lemma stable_del_name: "stable_env S w \<Longrightarrow> stable_env S (del_name p w)"
  by (simp add: stable_env_def env_avoids_def wf_rules)

lemma stable_move_name: "stable_env S w \<Longrightarrow> stable_env S (move_name a b w)"
  by (simp add: stable_env_def env_avoids_def wf_rules)

lemma stable_emit [simp]: "stable_env S (emit e w) = stable_env S w"
  by (simp add: stable_env_def env_avoids_def)

lemma stable_rand [simp]: "stable_env S (w\<lparr>rand_pos := n\<rparr>) = stable_env S w"
  by (simp add: stable_env_def env_avoids_def)

lemmas stable_updates = stable_add_node stable_set_node stable_del_name stable_move_name

lemma same_add_node: "wf_world w \<Longrightarrow> same_on (except S p) w (add_node p nd w)"
  by (simp add: same_on_def node_at_add_node)

lemma same_set_node:
  "wf_world w \<Longrightarrow> lookup w p = Some i \<Longrightarrow> same_on (except S p) w (set_node i f w)"
  by (simp add: same_on_def node_at_set_node)

text \<open>A call that changes nothing keeps every local assertion, however it ends.\<close>

lemma hoare_pure_call:
  assumes "local_to S A" and "\<And>w. snd (m w) = w"
  shows "preserves (\<lambda>w. stable_env S w \<and> A w) (syscall m)"
proof (rule hoare_syscall_local [OF assms(1)])
  show "preserves (\<lambda>w. stable_env S w \<and> A w) m"
    unfolding hoare_def
  proof (intro allI impI)
    fix w
    assume "stable_env S w \<and> A w"
    moreover obtain r w' where "m w = (r, w')" by (cases "m w")
    moreover from this assms(2) [of w] have "w' = w" by simp
    ultimately show "case m w of (Inl e, w') \<Rightarrow> stable_env S w' \<and> A w'
        | (Inr a, w') \<Rightarrow> stable_env S w' \<and> A w'"
      by (cases r) auto
  qed
qed auto

lemma pure_calls [hoare_rules]:
  assumes "local_to S A"
  shows "preserves (\<lambda>w. stable_env S w \<and> A w) (os_open p)"
    and "preserves (\<lambda>w. stable_env S w \<and> A w) (os_stat f)"
    and "preserves (\<lambda>w. stable_env S w \<and> A w) (os_lstat p)"
    and "preserves (\<lambda>w. stable_env S w \<and> A w) (os_content f)"
    and "preserves (\<lambda>w. stable_env S w \<and> A w) (os_sync f)"
    and "preserves (\<lambda>w. stable_env S w \<and> A w) (os_close f)"
    and "preserves (\<lambda>w. stable_env S w \<and> A w) (os_seek_start f)"
    and "preserves (\<lambda>w. stable_env S w \<and> A w) (os_read_dir d)"
    and "preserves (\<lambda>w. stable_env S w \<and> A w) (os_open_dir d)"
  unfolding os_open_dir_def os_open_def os_stat_def os_lstat_def os_content_def os_sync_def os_close_def
    os_seek_start_def os_read_dir_def
  by (rule hoare_pure_call [OF assms]; simp add: ret_def split: option.split)+

lemma rand_read_rule [hoare_rules]:
  assumes "local_to S A"
  shows "hoare (\<lambda>w. stable_env S w \<and> A w) (rand_read n)
    (\<lambda>r w. stable_env S w \<and> A w \<and> length r = n) (\<lambda>_ w. stable_env S w \<and> A w)"
  unfolding rand_read_def
proof (rule hoare_syscall_local [OF assms])
  have "same_on S w (w\<lparr>rand_pos := k\<rparr>)" for w k
    by (simp add: same_on_def)
  then show "hoare (\<lambda>w. stable_env S w \<and> A w)
     (\<lambda>w. (Inr (map (rand_fn w) [rand_pos w..<rand_pos w + n]), w\<lparr>rand_pos := rand_pos w + n\<rparr>))
     (\<lambda>r w. stable_env S w \<and> A w \<and> length r = n) (\<lambda>_ w. stable_env S w \<and> A w)"
    using local_toD [OF assms] by (fastforce simp: hoare_def)
qed auto

lemma local_to_mono: "local_to T A \<Longrightarrow> (\<And>p. T p \<Longrightarrow> S p) \<Longrightarrow> local_to S A"
  by (auto simp: local_to_def same_on_def)

text \<open>
  Exclusive creation: the name did not exist, everything else in \<open>S\<close> is as before, and the new
  file is empty with mode 0600.
\<close>

lemma os_open_excl_rule:
  assumes "S p" and A: "local_to S A"
    and B: "\<And>w w'. A w \<Longrightarrow> lookup w p = None \<Longrightarrow> same_on (except S p) w w' \<Longrightarrow> B w'"
  shows "hoare (\<lambda>w. stable_env S w \<and> A w) (os_open_excl p)
    (\<lambda>f w. stable_env S w \<and> B w \<and> f_path f = p \<and> file_at f (plain_node [] 384) w)
    (\<lambda>_ w. stable_env S w \<and> A w)"
  unfolding os_open_excl_def
proof (rule hoare_syscall_local [OF A])
  show "hoare (\<lambda>w. stable_env S w \<and> A w)
     (\<lambda>w. if lookup w p \<noteq> None then (Inl ErrExist, w)
          else (Inr (File p (next_ino w)), add_node p (plain_node [] 384) w))
     (\<lambda>f w. stable_env S w \<and> B w \<and> f_path f = p \<and> file_at f (plain_node [] 384) w)
     (\<lambda>_ w. stable_env S w \<and> A w)"
    unfolding hoare_def
    using B [OF _ _ same_add_node]
    by (auto simp: file_at_def node_at_add_node stable_env_def env_avoids_def wf_rules)
qed auto

lemma os_write_rule:
  assumes S: "S (f_path f)" and A: "local_to (except S (f_path f)) A"
  shows "hoare (\<lambda>w. stable_env S w \<and> A w \<and> file_at f nd w) (os_write f bs)
    (\<lambda>_ w. stable_env S w \<and> A w \<and> file_at f (nd\<lparr>n_content := n_content nd @ bs\<rparr>) w)
    (\<lambda>_ w. stable_env S w \<and> A w \<and> (\<exists>k. file_at f (nd\<lparr>n_content := n_content nd @ take k bs\<rparr>) w))"
proof -
  have set: "stable_env S (set_node (f_ino f) g w) \<and> A (set_node (f_ino f) g w) \<and>
      file_at f (g nd) (set_node (f_ino f) g w)"
    if "stable_env S w" "A w" "file_at f nd w" for w g
    using that local_toD [OF A same_set_node, of w "f_ino f" g] stable_set_node
    by (auto simp: file_at_def stable_env_def node_at_set_node env_avoids_def wf_rules)
  have loc: "local_to S (\<lambda>w. A w \<and> file_at f nd w)"
    using S local_except [OF A] by auto
  show ?thesis
    unfolding hoare_def
  proof (intro allI impI)
    fix w
    assume pre: "stable_env S w \<and> A w \<and> file_at f nd w"
    obtain s w' where ns: "next_step w = (s, w')" by (cases "next_step w")
    with pre next_step_frame have st: "stable_env S w'" "same_on S w w'" by blast+
    with local_toD [OF loc] pre have "A w'" "file_at f nd w'" by blast+
    with set [OF st(1), of "\<lambda>nd. nd\<lparr>n_content := n_content nd @ bs\<rparr>"]
      set [OF st(1), of "\<lambda>nd. nd\<lparr>n_content := n_content nd @ take (partial s) bs\<rparr>"] ns
    show "case os_write f bs w of
        (Inl e, w') \<Rightarrow> stable_env S w' \<and> A w' \<and>
          (\<exists>k. file_at f (nd\<lparr>n_content := n_content nd @ take k bs\<rparr>) w')
      | (Inr a, w') \<Rightarrow> stable_env S w' \<and> A w' \<and> file_at f (nd\<lparr>n_content := n_content nd @ bs\<rparr>) w'"
      by (auto simp: os_write_def split: option.split)
  qed
qed

lemma os_content_rule:
  assumes S: "S (f_path f)" and A: "local_to S A"
  shows "hoare (\<lambda>w. stable_env S w \<and> A w \<and> file_at f nd w) (os_content f)
    (\<lambda>bs w. stable_env S w \<and> A w \<and> file_at f nd w \<and> bs = n_content nd)
    (\<lambda>_ w. stable_env S w \<and> A w \<and> file_at f nd w)"
  unfolding os_content_def
  by (rule hoare_syscall_local [where A = "\<lambda>w. A w \<and> file_at f nd w"])
    (use S A file_at_node in \<open>auto simp: hoare_def\<close>)

lemma os_stat_rule:
  assumes S: "S (f_path f)" and A: "local_to S A"
  shows "hoare (\<lambda>w. stable_env S w \<and> A w \<and> file_at f nd w) (os_stat f)
    (\<lambda>r w. stable_env S w \<and> A w \<and> file_at f nd w \<and> r = nd)
    (\<lambda>_ w. stable_env S w \<and> A w \<and> file_at f nd w)"
  unfolding os_stat_def
  by (rule hoare_syscall_local [where A = "\<lambda>w. A w \<and> file_at f nd w"])
    (use S A file_at_node in \<open>auto simp: hoare_def\<close>)

text \<open>
  Calls that record an effect: an assertion may speak of the effects, so the rule asks what
  becomes of it when the call succeeds.
\<close>

lemma os_chmod_rule:
  assumes S: "S (f_path f)"
    and A: "\<And>w w'. A w \<Longrightarrow> same_on (except S (f_path f)) w w' \<Longrightarrow> A (emit (EChmod (f_ino f) perm) w')"
    and loc: "local_to S A"
  shows "hoare (\<lambda>w. stable_env S w \<and> A w \<and> file_at f nd w) (os_chmod f perm)
    (\<lambda>_ w. stable_env S w \<and> A w \<and> file_at f (nd\<lparr>n_perm := perm\<rparr>) w)
    (\<lambda>_ w. stable_env S w \<and> A w \<and> file_at f nd w)"
  unfolding os_chmod_def
proof (rule hoare_syscall_local [where A = "\<lambda>w. A w \<and> file_at f nd w"])
  show "hoare (\<lambda>w. stable_env S w \<and> A w \<and> file_at f nd w)
     (\<lambda>w. (Inr (), emit (EChmod (f_ino f) perm) (set_node (f_ino f) (n_perm_update (\<lambda>_. perm)) w)))
     (\<lambda>_ w. stable_env S w \<and> A w \<and> file_at f (nd\<lparr>n_perm := perm\<rparr>) w)
     (\<lambda>_ w. stable_env S w \<and> A w \<and> file_at f nd w)"
    unfolding hoare_def
    using A same_set_node
    by (auto simp: file_at_def stable_env_def env_avoids_def node_at_set_node wf_rules)
qed (use S loc in auto)

lemma os_rename_rule:
  assumes A: "local_to S A"
    and "\<And>w i. stable_env S w \<Longrightarrow> A w \<Longrightarrow> lookup w a = Some i \<Longrightarrow> \<not> is_dir_node (node_at w b) \<Longrightarrow>
      Q () (emit (ERename a b (content_at w a)) (move_name a b w))"
    and "\<And>w e. stable_env S w \<Longrightarrow> A w \<Longrightarrow> E e w"
  shows "hoare (\<lambda>w. stable_env S w \<and> A w) (os_rename a b) Q E"
  unfolding os_rename_def
  by (rule hoare_syscall_local [OF A]) (use assms in \<open>auto simp: hoare_def\<close>)

lemma os_remove_rule:
  assumes A: "local_to S A"
    and "\<And>w i. stable_env S w \<Longrightarrow> A w \<Longrightarrow> lookup w p = Some i \<Longrightarrow>
      Q () (emit (ERemove p) (del_name p w))"
    and "\<And>w e. stable_env S w \<Longrightarrow> A w \<Longrightarrow> E e w"
  shows "hoare (\<lambda>w. stable_env S w \<and> A w) (os_remove p) Q E"
  unfolding os_remove_def
  by (rule hoare_syscall_local [OF A]) (use assms in \<open>auto simp: hoare_def\<close>)

lemma same_del_name: "same_on (except S p) w (del_name p w)"
  by (simp add: same_on_def node_at_del_name)

lemma same_move_name:
  "lookup w a = Some i \<Longrightarrow> same_on (except (except S a) b) w (move_name a b w)"
  by (simp add: same_on_def node_at_move_name)

text \<open>The entries of a directory are exactly the names in it.\<close>

lemma set_dir_entries:
  "set (dir_entries w d) =
     {(base_of p, case node_of w i of None \<Rightarrow> Irregular | Some nd \<Rightarrow> n_kind nd) | p i.
        (p, i) \<in> set (dirents w) \<and> dir_of p = d}"
  by (auto simp: dir_entries_def)

lemma lookup_in_dirents: "wf_world w \<Longrightarrow> (p, i) \<in> set (dirents w) \<longleftrightarrow> lookup w p = Some i"
  by (simp add: lookup_def wf_world_def)

lemma dir_entries_iff:
  assumes "wf_world w"
  shows "(nm, k) \<in> set (dir_entries w d) \<longleftrightarrow>
    (\<exists>nd. node_at w (Path d nm) = Some nd \<and> k = n_kind nd)"
proof
  assume "(nm, k) \<in> set (dir_entries w d)"
  then obtain p i where p: "lookup w p = Some i" "dir_of p = d" "nm = base_of p"
    and k: "k = (case node_of w i of None \<Rightarrow> Irregular | Some nd \<Rightarrow> n_kind nd)"
    using assms by (auto simp: set_dir_entries lookup_in_dirents)
  from p have "p = Path d nm" by (cases p) simp
  moreover from wf_node [OF assms p(1)] obtain nd where "node_of w i = Some nd" by blast
  ultimately show "\<exists>nd. node_at w (Path d nm) = Some nd \<and> k = n_kind nd"
    using p k by (auto simp: node_at_def)
next
  assume "\<exists>nd. node_at w (Path d nm) = Some nd \<and> k = n_kind nd"
  then obtain nd i where "lookup w (Path d nm) = Some i" "node_of w i = Some nd" "k = n_kind nd"
    by (auto simp: node_at_def split: option.splits)
  then show "(nm, k) \<in> set (dir_entries w d)"
    using assms by (force simp: set_dir_entries lookup_in_dirents)
qed

section \<open>Assertions that ignore all effects but renames\<close>

definition is_rename :: "effect \<Rightarrow> bool" where
  "is_rename e \<longleftrightarrow> (case e of ERename a b c \<Rightarrow> True | _ \<Rightarrow> False)"

text \<open>The renames performed so far, latest first.\<close>

definition renames :: "world \<Rightarrow> effect list" where
  "renames w = filter is_rename (effects w)"

definition effect_blind :: "(world \<Rightarrow> bool) \<Rightarrow> bool" where
  "effect_blind A \<longleftrightarrow> (\<forall>w e. \<not> is_rename e \<longrightarrow> A w \<longrightarrow> A (emit e w))"

lemma effect_blindD: "effect_blind A \<Longrightarrow> \<not> is_rename e \<Longrightarrow> A w \<Longrightarrow> A (emit e w)"
  by (simp add: effect_blind_def)

lemma not_rename [simp]:
  "\<not> is_rename (ERemove p)" "\<not> is_rename (EChmod i m)" "\<not> is_rename (ERequest s b)"
  "\<not> is_rename (EProgress r t)" "is_rename (ERename p q c)"
  by (simp_all add: is_rename_def)

lemma renames_emit [simp]:
  "renames (emit e w) = (if is_rename e then e # renames w else renames w)"
  by (simp add: renames_def)

lemma blind_renames: "effect_blind (\<lambda>w. P (renames w))"
  by (simp add: effect_blind_def)

lemma local_renames: "local_to S (\<lambda>w. P (renames w))"
  by (simp add: local_to_def same_on_def renames_def)

lemma blind_file_at [simp, intro]: "effect_blind (file_at f nd)"
  by (simp add: effect_blind_def file_at_def)

lemma blind_conj [intro]:
  "effect_blind A \<Longrightarrow> effect_blind B \<Longrightarrow> effect_blind (\<lambda>w. A w \<and> B w)"
  by (simp add: effect_blind_def)

lemma blind_True [simp, intro]: "effect_blind (\<lambda>w. True)"
  by (simp add: effect_blind_def)

lemma file_at_frame:
  "file_at f nd w \<Longrightarrow> S (f_path f) \<Longrightarrow> same_on S w w' \<Longrightarrow> file_at f nd w'"
  by (simp add: file_at_def same_on_def)

section \<open>Honest errors\<close>

text \<open>
  A scripted fault stands for a failure of the system. It is honest when it is not one of the
  two errors by which the program learns that a name exists or does not exist.
\<close>

definition honest_fault :: "gerror option \<Rightarrow> bool" where
  "honest_fault f \<longleftrightarrow>
     (case f of None \<Rightarrow> True | Some e \<Rightarrow> \<not> errors_is e ErrNotExist \<and> \<not> errors_is e ErrExist)"

definition env_honest :: "world \<Rightarrow> bool" where
  "env_honest w \<longleftrightarrow> list_all (\<lambda>s. honest_fault (fault s)) (script w)"

lemma local_honest: "local_to S env_honest"
  by (auto simp: local_to_def same_on_def env_honest_def suffix_def)

lemma blind_honest: "effect_blind env_honest"
  by (simp add: effect_blind_def env_honest_def)

lemma next_step_honest:
  assumes "env_honest w" "next_step w = (s, w')"
  shows "honest_fault (fault s)"
  using assms
  by (cases "script w") (auto simp: env_honest_def next_step_def quiet_step_def honest_fault_def)

lemma os_remove_honest:
  assumes A: "local_to S A"
    and Q: "\<And>w. stable_env S w \<Longrightarrow> A w \<Longrightarrow> Q () (emit (ERemove p) (del_name p w))"
  shows "hoare (\<lambda>w. stable_env S w \<and> A w \<and> env_honest w) (os_remove p) Q
    (\<lambda>e w. stable_env S w \<and> A w \<and> (errors_is e ErrNotExist \<longrightarrow> lookup w p = None))"
  unfolding hoare_def os_remove_def syscall_def
proof (intro allI impI)
  fix w
  assume w: "stable_env S w \<and> A w \<and> env_honest w"
  obtain s w' where ns: "next_step w = (s, w')" by (cases "next_step w")
  with w next_step_frame have st: "stable_env S w'" "same_on S w w'" by blast+
  from local_toD [OF A st(2)] w have "A w'" by blast
  moreover from next_step_honest [OF _ ns] w have "honest_fault (fault s)" by blast
  ultimately show "case case next_step w of (s, w') \<Rightarrow>
      (case fault s of None \<Rightarrow>
         if lookup w' p = None then (Inl ErrNotExist, w')
         else if is_dir_node (node_at w' p) \<and> has_children w' p
         then (Inl (SysError ''directory not empty''), w')
         else (Inr (), emit (ERemove p) (del_name p w'))
       | Some e \<Rightarrow> (Inl e, w')) of
      (Inl e, w) \<Rightarrow> stable_env S w \<and> A w \<and> (errors_is e ErrNotExist \<longrightarrow> lookup w p = None)
    | (Inr a, w) \<Rightarrow> Q a w"
    using ns st(1) Q by (auto simp: honest_fault_def split: option.split)
qed

end
