(* ===== verification/Readers.thy ===== *)
theory Readers
  imports Filesystem
begin

text \<open>
  Copying with a bound: \<^verbatim>\<open>io.Copy\<close> from an \<^verbatim>\<open>io.LimitReader\<close> (used by every download, hash and
  extraction), the readers the program wraps around its sources (\<^verbatim>\<open>contextReader\<close> of archive.go,
  \<^verbatim>\<open>idleTimeoutReader\<close> and \<^verbatim>\<open>countingReader\<close> of http.go) and \<^verbatim>\<open>copyBounded\<close>. A source is a stream of
  read events, plus what happens before each \<^verbatim>\<open>Read\<close> and after it.
\<close>

definition maxMetadataBytes :: int where "maxMetadataBytes = 2 * 2 ^ 20"
definition maxArchiveBytes :: int where "maxArchiveBytes = 256 * 2 ^ 20"
definition maxBinaryBytes :: int where "maxBinaryBytes = 256 * 2 ^ 20"
definition maxErrorBytes :: int where "maxErrorBytes = 64 * 2 ^ 10"

definition stream_data :: "stream \<Rightarrow> bytes" where
  "stream_data s = concat (map rv_data s)"

definition plain_read :: "bytes \<Rightarrow> read_event" where
  "plain_read bs = \<lparr>rv_data = bs, rv_err = None, rv_delay = 0, rv_gap = 0\<rparr>"

text \<open>A file is read in pieces of 32 KiB, the buffer of \<^verbatim>\<open>io.Copy\<close>.\<close>

function chunks :: "nat \<Rightarrow> bytes \<Rightarrow> bytes list" where
  "chunks n bs = (if bs = [] \<or> n = 0 then [] else take n bs # chunks n (drop n bs))"
  by pat_completeness auto
termination
  by (relation "measure (length \<circ> snd)") auto

declare chunks.simps [simp del]

definition file_stream :: "bytes \<Rightarrow> stream" where
  "file_stream bs = map plain_read (chunks 32768 bs)"

lemma concat_chunks: "0 < n \<Longrightarrow> concat (chunks n bs) = bs"
  by (induction n bs rule: chunks.induct) (simp add: chunks.simps)

lemma stream_data_file_stream [simp]: "stream_data (file_stream bs) = bs"
proof -
  have "map rv_data (file_stream bs) = chunks 32768 bs"
    by (simp add: file_stream_def plain_read_def comp_def)
  then show ?thesis by (simp add: stream_data_def concat_chunks)
qed

text \<open>
  \<open>copy_limited exact before after wr n s acc\<close> is \<^verbatim>\<open>io.Copy\<close> into a destination with write \<open>wr\<close>, from
  a \<^verbatim>\<open>LimitReader\<close> with \<open>n\<close> bytes left over the stream \<open>s\<close>. Every \<^verbatim>\<open>Read\<close> of the source first runs
  \<open>before\<close>, also the one that finds the end of the input; once the limit is used up the source is
  not read again. Bytes that come together with an error are written before the error is
  returned. With \<open>exact\<close> it is the copy inside \<^verbatim>\<open>io.CopyN\<close>, which drops an error that arrives with
  the last of the \<open>n\<close> bytes.
\<close>

fun copy_limited ::
  "bool \<Rightarrow> unit io \<Rightarrow> (bytes \<Rightarrow> bytes \<Rightarrow> unit io) \<Rightarrow> (bytes \<Rightarrow> unit io) \<Rightarrow> nat \<Rightarrow> stream \<Rightarrow> bytes \<Rightarrow>
   bytes io" where
  "copy_limited exact before after wr n [] acc =
     (if n = 0 then ret acc else thenE before (ret acc))"
| "copy_limited exact before after wr n (r # s) acc =
     (if n = 0 then ret acc
      else thenE before
        (let bs = take n (rv_data r)
         in thenE (after acc bs)
             (thenE (if bs = [] then ret () else wr bs)
               (if length (rv_data r) > n \<or> exact \<and> length (rv_data r) = n then ret (acc @ bs)
                else (case rv_err r of
                        Some e \<Rightarrow> fail e
                      | None \<Rightarrow>
                          copy_limited exact before after wr (n - length bs) s (acc @ bs))))))"

declare copy_limited.simps [simp del]

text \<open>\<^verbatim>\<open>io.CopyN\<close>: exactly \<open>n\<close> bytes, or the error, which is \<^verbatim>\<open>io.EOF\<close> when the source just ends.\<close>

definition copyN :: "unit io \<Rightarrow> (bytes \<Rightarrow> unit io) \<Rightarrow> int \<Rightarrow> stream \<Rightarrow> bytes io" where
  "copyN before wr n s =
     bindE (copy_limited True before (\<lambda>_ _. ret ()) wr (nat n) s [])
       (\<lambda>out. if int (length out) < n then fail ErrEOF else ret out)"

section \<open>The readers\<close>

text \<open>\<^verbatim>\<open>contextReader.Read\<close>: the context first, then the underlying reader.\<close>

definition contextReader :: "unit io \<Rightarrow> unit io" where
  "contextReader read = thenE ctx_check read"

text \<open>\<^verbatim>\<open>countingReader.Read\<close>: reports the cumulative count after a read that returned bytes.\<close>

definition countingReader :: "int \<Rightarrow> bytes \<Rightarrow> bytes \<Rightarrow> unit io" where
  "countingReader total_size acc bs =
     (if 0 < length bs
      then (\<lambda>w. (Inr (), emit (EProgress (int (length acc) + int (length bs)) total_size) w))
      else ret ())"

text \<open>
  \<^verbatim>\<open>idleTimeoutReader\<close> with the timer of \<^verbatim>\<open>time.AfterFunc(idle, cancel)\<close>. \<open>now\<close> is the clock when the
  previous \<^verbatim>\<open>Read\<close> returned, \<open>deadline\<close> the time at which the timer fires, both in milliseconds since
  the timer was created. A timer that fires cancels the request's context for good, and the read
  that is under way, or the next one, fails; \<^verbatim>\<open>Reset\<close> moves the deadline of a timer.
\<close>

definition timer_reset :: "nat \<Rightarrow> nat \<Rightarrow> nat" where
  "timer_reset idle now = now + idle"

definition cancelled_read :: read_event where
  "cancelled_read = \<lparr>rv_data = [], rv_err = Some CtxCanceled, rv_delay = 0, rv_gap = 0\<rparr>"

fun idleTimeoutReader :: "nat \<Rightarrow> nat \<Rightarrow> nat \<Rightarrow> stream \<Rightarrow> stream" where
  "idleTimeoutReader idle deadline now [] = []"
| "idleTimeoutReader idle deadline now (r # s) =
     (let begin_read = now + rv_gap r
      in if begin_read > deadline then [cancelled_read]
         else
           (let deadline = timer_reset idle begin_read;
                end_read = begin_read + rv_delay r
            in if end_read > deadline then [cancelled_read]
               else r # idleTimeoutReader idle (timer_reset idle end_read) end_read s))"

definition no_hook :: "bytes \<Rightarrow> bytes \<Rightarrow> unit io" where
  "no_hook acc bs = ret ()"

definition no_write :: "bytes \<Rightarrow> unit io" where
  "no_write bs = ret ()"

definition copyBounded ::
  "unit io \<Rightarrow> (bytes \<Rightarrow> unit io) \<Rightarrow> stream \<Rightarrow> int \<Rightarrow> string \<Rightarrow> bytes io" where
  "copyBounded before wr s limit description =
     bindE (wrapE ''selfupdate: read %s: %w'' [AStr description]
              (copy_limited False before no_hook wr (nat (limit + 1)) s []))
       (\<lambda>out. if int (length out) > limit
              then fail (Errorf ''selfupdate: %s exceeds the %d-byte limit'' [AStr description, AInt limit])
              else ret out)"

section \<open>Facts about copying\<close>

text \<open>
  The copy rule: an assertion about what has been copied so far that every read keeps and every
  write extends holds of the whole at the end, and what was copied is the stream's data cut at
  the limit. The destination is never asked to hold more than the limit \<open>k\<close>.
\<close>

lemma copy_limited_upto:
  assumes before: "\<And>acc. hoare (I acc) before (\<lambda>_. I acc) E"
    and after: "\<And>acc bs. hoare (I acc) (after acc bs) (\<lambda>_. J acc bs) E"
    and empty: "\<And>acc w. J acc [] w \<Longrightarrow> I acc w"
    and wr: "\<And>acc bs. bs \<noteq> [] \<Longrightarrow> length (acc @ bs) \<le> k \<Longrightarrow> hoare (J acc bs) (wr bs) (\<lambda>_. I (acc @ bs)) E"
    and stream_err: "\<And>acc w r e. r \<in> set s \<Longrightarrow> rv_err r = Some e \<Longrightarrow> I acc w \<Longrightarrow> E e w"
    and k: "length acc + n \<le> k"
  shows "hoare (I acc) (copy_limited exact before after wr n s acc)
    (\<lambda>out w. I out w \<and> out = acc @ take n (stream_data s)) E"
  using stream_err k
proof (induction s arbitrary: n acc)
  case Nil
  show ?case
    by (auto simp: copy_limited.simps stream_data_def
        intro!: hoare_ret hoare_then [OF before [of acc]])
next
  case (Cons r s)
  let ?bs = "take n (rv_data r)"
  let ?Q = "\<lambda>out w. I out w \<and> out = acc @ take n (stream_data (r # s))"
  let ?stop = "length (rv_data r) > n \<or> exact \<and> length (rv_data r) = n"
  have data: "stream_data (r # s) = rv_data r @ stream_data s"
    by (simp add: stream_data_def)
  have wr': "hoare (J acc ?bs) (if ?bs = [] then ret () else wr ?bs) (\<lambda>_. I (acc @ ?bs)) E"
    using empty wr [of ?bs acc] Cons.prems(2) by (auto intro: hoare_ret)
  have IH: "hoare (I (acc @ ?bs))
      (copy_limited exact before after wr (n - length ?bs) s (acc @ ?bs)) ?Q E" if "\<not> ?stop"
    by (rule hoare_weaken [OF Cons.IH]) (use that Cons.prems data in auto)
  have rest: "hoare (I (acc @ ?bs))
      (if ?stop then ret (acc @ ?bs)
       else (case rv_err r of Some e \<Rightarrow> fail e
             | None \<Rightarrow> copy_limited exact before after wr (n - length ?bs) s (acc @ ?bs))) ?Q E"
  proof (cases ?stop)
    case True
    then show ?thesis by (auto simp: data intro: hoare_ret)
  next
    case False
    have "hoare (I (acc @ ?bs)) (fail e) ?Q E" if "rv_err r = Some e" for e
      using Cons.prems(1) [of r e] that by (auto simp: hoare_def fail_def)
    with IH False show ?thesis by (cases "rv_err r") auto
  qed
  show ?case
  proof (cases "n = 0")
    case True
    then show ?thesis by (auto simp: copy_limited.simps intro: hoare_ret)
  next
    case False
    show ?thesis
      unfolding copy_limited.simps Let_def if_not_P [OF False]
      by (rule hoare_then [OF before], rule hoare_then [OF after], rule hoare_then [OF wr' rest])
  qed
qed

lemma copy_limited_rule:
  assumes "\<And>acc. hoare (I acc) before (\<lambda>_. I acc) E"
    and "\<And>acc bs. hoare (I acc) (after acc bs) (\<lambda>_. J acc bs) E"
    and "\<And>acc w. J acc [] w \<Longrightarrow> I acc w"
    and "\<And>acc bs. bs \<noteq> [] \<Longrightarrow> hoare (J acc bs) (wr bs) (\<lambda>_. I (acc @ bs)) E"
    and "\<And>acc w r e. r \<in> set s \<Longrightarrow> rv_err r = Some e \<Longrightarrow> I acc w \<Longrightarrow> E e w"
  shows "hoare (I acc) (copy_limited exact before after wr n s acc)
    (\<lambda>out w. I out w \<and> out = acc @ take n (stream_data s)) E"
  by (rule copy_limited_upto [where J = J and k = "length acc + n"]) (use assms in auto)

lemma copyN_rule:
  assumes "\<And>acc. hoare (I acc) before (\<lambda>_. I acc) E"
    and "\<And>acc bs. bs \<noteq> [] \<Longrightarrow> length (acc @ bs) \<le> nat n \<Longrightarrow> hoare (I acc) (wr bs) (\<lambda>_. I (acc @ bs)) E"
    and "\<And>acc w r e. r \<in> set s \<Longrightarrow> rv_err r = Some e \<Longrightarrow> I acc w \<Longrightarrow> E e w"
    and "\<And>acc w. int (length (stream_data s)) < n \<Longrightarrow> I acc w \<Longrightarrow> E ErrEOF w"
  shows "hoare (I []) (copyN before wr n s)
    (\<lambda>out w. I out w \<and> out = take (nat n) (stream_data s) \<and> n \<le> int (length (stream_data s))) E"
  unfolding copyN_def
proof (rule hoare_bind)
  show "hoare (I []) (copy_limited True before (\<lambda>_ _. ret ()) wr (nat n) s [])
    (\<lambda>out w. I out w \<and> out = [] @ take (nat n) (stream_data s)) E"
    by (rule copy_limited_upto [where J = "\<lambda>acc _. I acc" and k = "nat n"]) (use assms in \<open>auto intro: hoare_ret\<close>)
next
  fix out
  show "hoare (\<lambda>w. I out w \<and> out = [] @ take (nat n) (stream_data s))
     (if int (length out) < n then fail ErrEOF else ret out)
     (\<lambda>out w. I out w \<and> out = take (nat n) (stream_data s) \<and> n \<le> int (length (stream_data s))) E"
    using assms(4) by (auto intro!: hoare_if hoare_ret hoare_fail)
qed

lemma copyBounded_rule:
  assumes before: "\<And>acc. hoare (I acc) before (\<lambda>_. I acc) (\<lambda>_. E)"
    and wr: "\<And>acc bs. bs \<noteq> [] \<Longrightarrow> hoare (I acc) (wr bs) (\<lambda>_. I (acc @ bs)) (\<lambda>_. E)"
    and err: "\<And>acc w. I acc w \<Longrightarrow> (\<exists>r \<in> set s. rv_err r \<noteq> None) \<or> int (length (stream_data s)) > limit \<Longrightarrow> E w"
    and "0 \<le> limit"
  shows "hoare (I []) (copyBounded before wr s limit d)
    (\<lambda>out w. I out w \<and> out = stream_data s \<and> int (length out) \<le> limit) (\<lambda>_. E)"
  unfolding copyBounded_def
proof (rule hoare_bind)
  show "hoare (I []) (wrapE ''selfupdate: read %s: %w'' [AStr d]
      (copy_limited False before no_hook wr (nat (limit + 1)) s []))
    (\<lambda>out w. I out w \<and> out = [] @ take (nat (limit + 1)) (stream_data s)) (\<lambda>_. E)"
  proof (rule hoare_wrap_any, rule copy_limited_rule [where J = "\<lambda>acc _. I acc"])
    fix acc w r e
    assume "r \<in> set s" "rv_err r = Some e" "I acc w"
    then have "\<exists>r \<in> set s. rv_err r \<noteq> None" by force
    with err \<open>I acc w\<close> show "E w" by blast
  qed (use before wr in \<open>auto simp: no_hook_def intro: hoare_ret\<close>)
next
  fix out
  have "out = stream_data s"
    if "out = take (nat (limit + 1)) (stream_data s)" "int (length out) \<le> limit"
  proof -
    have "length (stream_data s) < nat (limit + 1)"
      using that \<open>0 \<le> limit\<close> by auto
    with that show ?thesis by simp
  qed
  moreover have "int (length (stream_data s)) > limit"
    if "out = take (nat (limit + 1)) (stream_data s)" "int (length out) > limit"
    using that by auto
  ultimately show "hoare (\<lambda>w. I out w \<and> out = [] @ take (nat (limit + 1)) (stream_data s))
     (if int (length out) > limit
      then fail (Errorf ''selfupdate: %s exceeds the %d-byte limit'' [AStr d, AInt limit])
      else ret out)
     (\<lambda>out w. I out w \<and> out = stream_data s \<and> int (length out) \<le> limit) (\<lambda>_. E)"
    using err by (auto intro!: hoare_if hoare_ret hoare_fail)
qed

text \<open>A complete answer of a server, for the witnesses.\<close>

definition answer :: "bytes \<Rightarrow> reply" where
  "answer bs = Response \<lparr>r_status = 200, r_status_text = ''OK'', r_content_length = int (length bs),
     r_link = [], r_delay = 5, r_body = [plain_read bs]\<rparr>"

section \<open>Properties of the readers\<close>

text \<open>C33 A bounded copy that succeeds has copied the whole source, and the source was within the limit: nothing is
  ever cut off silently.\<close>

theorem copyBounded_bound:
  assumes "copyBounded before wr s limit d w = (Inr out, w')" "0 \<le> limit"
  shows "out = stream_data s \<and> int (length out) \<le> limit"
proof -
  have any: "hoare (\<lambda>_. True) m (\<lambda>_ _. True) (\<lambda>_ _. True)" for m :: "unit io"
    by (simp add: hoare_def split: prod.split sum.split)
  from copyBounded_rule [where I = "\<lambda>_ _. True" and E = "\<lambda>_. True" and before = before and wr = wr
      and limit = limit, OF any any _ assms(2)]
  have "hoare (\<lambda>_. True) (copyBounded before wr s limit d)
    (\<lambda>out w. True \<and> out = stream_data s \<and> int (length out) \<le> limit) (\<lambda>_ _. True)" by simp
  from hoareD_ok [OF this _ assms(1)] show ?thesis by blast
qed

theorem copyBounded_bound_witness:
  "\<exists>w'. copyBounded (ret ()) no_write [plain_read ''abc''] 3 [] empty_world = (Inr ''abc'', w')
     \<and> ''abc'' = stream_data [plain_read ''abc''] \<and> int (length ''abc'') \<le> 3"
proof -
  have "case copyBounded (ret ()) no_write [plain_read ''abc''] 3 [] empty_world of
      (Inr out, w') \<Rightarrow> out = ''abc'' | (Inl e, w') \<Rightarrow> False"
    by code_simp
  then obtain w' where run: "copyBounded (ret ()) no_write [plain_read ''abc''] 3 [] empty_world = (Inr ''abc'', w')"
    by (auto split: prod.splits sum.splits)
  from run copyBounded_bound [OF run] show ?thesis by auto
qed

text \<open>
  A read before which the program, or in which the source, lets more than the idle time pass. The
  first read is counted from the creation of the timer.
\<close>

definition stalled :: "nat \<Rightarrow> read_event \<Rightarrow> bool" where
  "stalled idle r \<longleftrightarrow> rv_gap r > idle \<or> rv_delay r > idle"

fun since_request :: "nat \<Rightarrow> stream \<Rightarrow> stream" where
  "since_request elapsed [] = []"
| "since_request elapsed (r # s) = r\<lparr>rv_gap := elapsed + rv_gap r\<rparr> # s"

lemma since_request_0 [simp]: "since_request 0 s = s"
  by (cases s) simp_all

text \<open>With the deadline a whole idle time after the last event, only the gaps and the delays matter.\<close>

lemma idle_reader_reset:
  "idleTimeoutReader idle (now + idle) now s =
     takeWhile (\<lambda>r. \<not> stalled idle r) s
     @ (if list_ex (stalled idle) s then [cancelled_read] else [])"
  by (induction s arbitrary: now) (auto simp: stalled_def timer_reset_def Let_def not_less)

text \<open>C34 The stall detector, with its timer and both resets, cuts a download exactly at the first wait
  that is longer than the idle time, in a read or between two reads, and passes everything before it
  on; a download without such a wait is not cut however long it takes in total.\<close>

theorem idle_reader:
  "idleTimeoutReader idle idle elapsed s =
     (let n = length (takeWhile (\<lambda>r. \<not> stalled idle r) (since_request elapsed s))
      in take n s @ (if n = length s then [] else [cancelled_read]))"
proof (cases s)
  case (Cons r rs)
  have rest: "take (length (takeWhile (\<lambda>r. \<not> stalled idle r) rs)) rs = takeWhile (\<lambda>r. \<not> stalled idle r) rs"
    by (metis takeWhile_eq_take)
  have cut: "list_ex (stalled idle) rs \<longleftrightarrow> length (takeWhile (\<lambda>r. \<not> stalled idle r) rs) \<noteq> length rs"
    by (induction rs) auto
  have first: "stalled idle (r\<lparr>rv_gap := elapsed + rv_gap r\<rparr>) \<longleftrightarrow>
      elapsed + rv_gap r > idle \<or> rv_delay r > idle"
    by (simp add: stalled_def)
  show ?thesis
    using idle_reader_reset [of idle "elapsed + rv_gap r + rv_delay r" rs]
    by (auto simp: Cons first rest cut timer_reset_def Let_def not_less)
qed simp

end
