(* ===== verification/Archive.thy ===== *)
theory Archive
  imports Readers "HOL-Library.Word"
begin

text \<open>
  Extraction of the command's executable (archive.go). The decoders of the standard library
  (\<^verbatim>\<open>compress/gzip\<close>, \<^verbatim>\<open>archive/tar\<close>, \<^verbatim>\<open>archive/zip\<close>) are the parameter \<open>archive_lib\<close>, seen as the
  program sees them: a list of members in archive order, each with the header fields the
  program reads and a stream for its data, and for tar the way the list ends and how many
  expanded bytes the reader consumed. The two loops are written out. \<open>archive_format\<close> is the
  interface the staging code relies on; both formats are proved to satisfy it.
\<close>

definition maxExpandedArchiveBytes :: int where
  "maxExpandedArchiveBytes = 512 * 2 ^ 20"

definition maxZIPEntries :: nat where
  "maxZIPEntries = 4096"

text \<open>\<^verbatim>\<open>path.Base\<close>\<close>

definition path_base :: "string \<Rightarrow> string" where
  "path_base s =
     (if s = [] then ''.''
      else let t = rev (dropWhile (\<lambda>c. c = CHR ''/'') (rev s));
               b = rev (takeWhile (\<lambda>c. c \<noteq> CHR ''/'') (rev t))
           in if b = [] then ''/'' else b)"

text \<open>The data of a tar member is clamped to the size in its header by \<^verbatim>\<open>tar.Reader\<close>.\<close>

record tar_entry =
  th_name :: string
  th_typeflag :: char
  th_size :: int
  th_data :: stream

record tar_archive =
  ta_entries :: "tar_entry list"
  ta_end :: "gerror option" \<comment> \<open>how \<^verbatim>\<open>Next\<close> ends: \<open>None\<close> is \<^verbatim>\<open>io.EOF\<close>\<close>
  ta_consumed :: int

record zip_entry =
  ze_name :: string
  ze_regular :: bool
  ze_usize :: "64 word"
  ze_open :: "gerror + stream"
  ze_close :: "gerror option"

record archive_lib =
  gunzip :: "bytes \<Rightarrow> gerror + bytes \<times> gerror option"
  untar :: "bytes \<Rightarrow> gerror option \<Rightarrow> tar_archive"
  unzip :: "bytes \<Rightarrow> int \<Rightarrow> gerror + zip_entry list"

definition TypeReg :: char where
  "TypeReg = CHR ''0''"

section \<open>The two extraction loops\<close>

text \<open>
  One round of the tar loop per member. The compressed file is read through a buffer, so a
  cancelled context shows as a read error only when more compressed bytes are needed: that is a
  fault of the system call at \<^verbatim>\<open>Next\<close> or at a read of the data.
\<close>

definition tar_next :: "unit io" where
  "tar_next = wrapE ''read tar archive: %w'' [] (syscall (ret ()))"

fun tar_loop ::
  "(bytes \<Rightarrow> unit io) \<Rightarrow> string \<Rightarrow> gerror option \<Rightarrow> tar_entry list \<Rightarrow> int \<Rightarrow> bool \<Rightarrow> (int \<times> bool) io"
where
  "tar_loop wr memberName tend [] written found =
     thenE ctx_check
       (thenE tar_next
         (case tend of
            None \<Rightarrow> ret (written, found)
          | Some e \<Rightarrow> fail (Wrapf ''read tar archive: %w'' [] e)))"
| "tar_loop wr memberName tend (h # hs) written found =
     thenE ctx_check
       (thenE tar_next
         (if path_base (th_name h) \<noteq> memberName then tar_loop wr memberName tend hs written found
          else if th_name h \<noteq> memberName
          then fail (Errorf ''binary member %q is not at the archive root'' [AStr (th_name h)])
          else if th_typeflag h \<noteq> TypeReg
          then fail (Errorf ''binary member %q is not a regular file'' [AStr (th_name h)])
          else if found
          then fail (Errorf ''archive contains duplicate binary member %q'' [AStr memberName])
          else if th_size h \<le> 0
          then fail (Errorf ''binary member %q is empty'' [AStr memberName])
          else if th_size h > maxBinaryBytes
          then fail (Errorf ''binary member %q exceeds the %d-byte limit''
                 [AStr memberName, AInt maxBinaryBytes])
          else bindE
            (wrapE ''read binary member %q: %w'' [AStr memberName]
              (copyN (syscall (ret ())) wr (th_size h) (th_data h)))
            (\<lambda>out. if int (length out) \<noteq> th_size h
               then fail (Errorf ''binary member %q has an invalid expanded size'' [AStr memberName])
               else tar_loop wr memberName tend hs (int (length out)) True)))"

definition extractTarGzContext ::
  "archive_lib \<Rightarrow> os_file \<Rightarrow> string \<Rightarrow> int \<Rightarrow> (bytes \<Rightarrow> unit io) \<Rightarrow> int io" where
  "extractTarGzContext lib archive memberName maxExpanded wr =
     bindE
       (wrapE ''open gzip stream: %w'' []
         (thenE ctx_check
           (bindE (os_content archive) (\<lambda>content. liftE (gunzip lib content)))))
       (\<lambda>(expanded, err).
          let ta = untar lib (take (nat (maxExpanded + 1)) expanded)
                     (if int (length expanded) > maxExpanded then None else err)
          in bindE (tar_loop wr memberName (ta_end ta) (ta_entries ta) 0 False)
               (\<lambda>(written, found).
                  if maxExpanded + 1 - ta_consumed ta \<le> 0
                  then fail (Errorf ''expanded archive exceeds the %d-byte limit'' [AInt maxExpanded])
                  else if \<not> found
                  then fail (Errorf ''archive has no exact regular root member %q'' [AStr memberName])
                  else ret written))"

fun zip_loop ::
  "(bytes \<Rightarrow> unit io) \<Rightarrow> string \<Rightarrow> zip_entry list \<Rightarrow> int \<Rightarrow> bool \<Rightarrow> (int \<times> bool) io" where
  "zip_loop wr memberName [] written found = ret (written, found)"
| "zip_loop wr memberName (f # fs) written found =
     thenE ctx_check
       (if path_base (ze_name f) \<noteq> memberName then zip_loop wr memberName fs written found
        else if ze_name f \<noteq> memberName
        then fail (Errorf ''binary member %q is not at the archive root'' [AStr (ze_name f)])
        else if \<not> ze_regular f
        then fail (Errorf ''binary member %q is not a regular file'' [AStr (ze_name f)])
        else if found
        then fail (Errorf ''archive contains duplicate binary member %q'' [AStr memberName])
        else if ze_usize f = 0
        then fail (Errorf ''binary member %q is empty'' [AStr memberName])
        else if ze_usize f > word_of_int maxBinaryBytes
        then fail (Errorf ''binary member %q exceeds the %d-byte limit''
               [AStr memberName, AInt maxBinaryBytes])
        else bindE (wrapE ''open binary member %q: %w'' [AStr memberName] (liftE (ze_open f)))
          (\<lambda>opened.
             bindE (wrapE ''read binary member %q: %w'' [AStr memberName]
                      (copy_limited False (contextReader (syscall (ret ()))) no_hook wr
                        (nat (maxBinaryBytes + 1)) opened []))
               (\<lambda>out.
                  case ze_close f of
                    Some e \<Rightarrow> fail (Wrapf ''close binary member %q: %w'' [AStr memberName] e)
                  | None \<Rightarrow>
                      if word_of_int (int (length out)) \<noteq> ze_usize f
                         \<or> int (length out) > maxBinaryBytes
                      then fail (Errorf ''binary member %q has an invalid expanded size''
                             [AStr memberName])
                      else zip_loop wr memberName fs (int (length out)) True)))"

definition extractZIPContext ::
  "archive_lib \<Rightarrow> os_file \<Rightarrow> int \<Rightarrow> string \<Rightarrow> (bytes \<Rightarrow> unit io) \<Rightarrow> int io" where
  "extractZIPContext lib archive archiveSize memberName wr =
     thenE ctx_check
       (bindE
         (wrapE ''open ZIP archive: %w'' []
           (bindE (os_content archive) (\<lambda>content. liftE (unzip lib content archiveSize))))
         (\<lambda>files.
            if length files > maxZIPEntries
            then fail (Errorf ''ZIP archive has more than %d entries'' [AInt (int maxZIPEntries)])
            else bindE (zip_loop wr memberName files 0 False)
              (\<lambda>(written, found).
                 if \<not> found
                 then fail (Errorf ''archive has no exact regular root member %q'' [AStr memberName])
                 else ret written)))"

definition extractArchive ::
  "archive_lib \<Rightarrow> string \<Rightarrow> os_file \<Rightarrow> int \<Rightarrow> string \<Rightarrow> (bytes \<Rightarrow> unit io) \<Rightarrow> int io" where
  "extractArchive lib assetName archive archiveSize memberName wr =
     (if has_suffix assetName ''.tar.gz''
      then extractTarGzContext lib archive memberName maxExpandedArchiveBytes wr
      else if has_suffix assetName ''.zip''
      then extractZIPContext lib archive archiveSize memberName wr
      else fail (Errorf ''unsupported archive name %q'' [AStr assetName]))"

section \<open>What the loops select\<close>

text \<open>
  The specification: the one member whose last path element is the command's name, if it stands
  at the root, is a regular file and has an admissible size, and its bytes.
\<close>

definition tar_member :: "tar_entry list \<Rightarrow> string \<Rightarrow> bytes option" where
  "tar_member hs m =
     (case filter (\<lambda>h. path_base (th_name h) = m) hs of
        [h] \<Rightarrow>
          if th_name h = m \<and> th_typeflag h = TypeReg \<and> 0 < th_size h \<and> th_size h \<le> maxBinaryBytes
             \<and> th_size h \<le> int (length (stream_data (th_data h)))
          then Some (take (nat (th_size h)) (stream_data (th_data h))) else None
      | _ \<Rightarrow> None)"

definition tar_select :: "archive_lib \<Rightarrow> bytes \<Rightarrow> int \<Rightarrow> string \<Rightarrow> bytes option" where
  "tar_select lib content maxExpanded m =
     (case gunzip lib content of
        Inl e \<Rightarrow> None
      | Inr (expanded, err) \<Rightarrow>
          let ta = untar lib (take (nat (maxExpanded + 1)) expanded)
                     (if int (length expanded) > maxExpanded then None else err)
          in if ta_end ta = None \<and> ta_consumed ta \<le> maxExpanded then tar_member (ta_entries ta) m
             else None)"

definition zip_member :: "zip_entry list \<Rightarrow> string \<Rightarrow> bytes option" where
  "zip_member fs m =
     (case filter (\<lambda>f. path_base (ze_name f) = m) fs of
        [f] \<Rightarrow>
          (case ze_open f of
             Inl e \<Rightarrow> None
           | Inr s \<Rightarrow>
               if ze_name f = m \<and> ze_regular f \<and> 0 < uint (ze_usize f)
                  \<and> uint (ze_usize f) \<le> maxBinaryBytes
                  \<and> uint (ze_usize f) = int (length (stream_data s)) \<and> ze_close f = None
               then Some (stream_data s) else None)
      | _ \<Rightarrow> None)"

definition zip_select :: "archive_lib \<Rightarrow> bytes \<Rightarrow> int \<Rightarrow> string \<Rightarrow> bytes option" where
  "zip_select lib content asize m =
     (case unzip lib content asize of
        Inl e \<Rightarrow> None
      | Inr fs \<Rightarrow> if length fs \<le> maxZIPEntries then zip_member fs m else None)"

definition archive_select :: "archive_lib \<Rightarrow> string \<Rightarrow> bytes \<Rightarrow> int \<Rightarrow> string \<Rightarrow> bytes option" where
  "archive_select lib assetName content asize m =
     (if has_suffix assetName ''.tar.gz'' then tar_select lib content maxExpandedArchiveBytes m
      else if has_suffix assetName ''.zip'' then zip_select lib content asize m
      else None)"

section \<open>The writer interface\<close>

text \<open>
  What extraction needs of its destination (\<^verbatim>\<open>io.Writer\<close>) and its surroundings: \<open>Inv acc\<close> says that
  the destination holds \<open>acc\<close>, a write appends as long as the whole stays within one byte of the
  limit on binaries, and neither a read nor a look at the context disturbs it. \<open>Bad\<close> is what is
  known after a failure.
\<close>

locale sink =
  fixes wr :: "bytes \<Rightarrow> unit io" and Inv :: "bytes \<Rightarrow> world \<Rightarrow> bool" and Bad :: "world \<Rightarrow> bool"
  assumes wr_rule:
      "bs \<noteq> [] \<Longrightarrow> int (length (acc @ bs)) \<le> maxBinaryBytes + 1 \<Longrightarrow>
       hoare (Inv acc) (wr bs) (\<lambda>_. Inv (acc @ bs)) (\<lambda>_. Bad)"
    and call: "hoare (Inv acc) (syscall (ret ())) (\<lambda>_. Inv acc) (\<lambda>_. Bad)"
    and ctx: "hoare (Inv acc) ctx_check (\<lambda>_. Inv acc) (\<lambda>_. Bad)"

locale extraction = sink +
  fixes archive :: os_file and content :: bytes
  assumes content_read:
    "hoare (Inv acc) (os_content archive) (\<lambda>bs w. Inv acc w \<and> bs = content) (\<lambda>_. Bad)"

locale safe_extraction = extraction +
  assumes bad: "Inv acc w \<Longrightarrow> Bad w"

context sink
begin

lemma tar_next_rule: "hoare (Inv acc) tar_next (\<lambda>_. Inv acc) (\<lambda>_. Bad)"
  unfolding tar_next_def by (rule hoare_wrap_any [OF call])

lemma reader_rule: "hoare (Inv acc) (contextReader (syscall (ret ()))) (\<lambda>_. Inv acc) (\<lambda>_. Bad)"
  unfolding contextReader_def by (rule hoare_then [OF ctx call])

end

text \<open>
  Soundness of both loops: whatever the environment does, a loop that returns has written
  exactly the bytes of the selected member.
\<close>

context safe_extraction
begin

lemma fails: "hoare (Inv acc) (fail e) Q (\<lambda>_. Bad)"
  by (rule hoare_fail) (rule bad)

lemma tar_loop_found:
  "hoare (Inv c) (tar_loop wr m tend hs n True)
     (\<lambda>r w. r = (n, True) \<and> tend = None \<and> Inv c w \<and> filter (\<lambda>h. path_base (th_name h) = m) hs = [])
     (\<lambda>_. Bad)"
proof (induction hs)
  case Nil
  show ?case
    unfolding tar_loop.simps
    by (rule hoare_then [OF ctx], rule hoare_then [OF tar_next_rule])
      (auto intro: hoare_ret fails split: option.split)
next
  case (Cons h hs)
  show ?case
  proof (cases "path_base (th_name h) = m")
    case False
    with Cons show ?thesis
      by (auto intro!: hoare_then [OF ctx] hoare_then [OF tar_next_rule])
  next
    case True
    then show ?thesis
      by (auto intro!: hoare_then [OF ctx] hoare_then [OF tar_next_rule] fails)
  qed
qed

lemma tar_copy_rule:
  assumes "k \<le> maxBinaryBytes"
  shows "hoare (Inv []) (wrapE f a (copyN (syscall (ret ())) wr k s))
     (\<lambda>out w. Inv out w \<and> out = take (nat k) (stream_data s) \<and> k \<le> int (length (stream_data s)))
     (\<lambda>_. Bad)"
  by (rule hoare_wrap_any, rule copyN_rule [OF call wr_rule])
    (use assms in \<open>auto intro: bad simp: maxBinaryBytes_def\<close>)

lemma tar_loop_sound:
  "hoare (Inv []) (tar_loop wr m tend hs n False)
     (\<lambda>r w. tend = None \<and>
        (if snd r then \<exists>d. tar_member hs m = Some d \<and> fst r = int (length d) \<and> Inv d w
         else Inv [] w))
     (\<lambda>_. Bad)"
proof (induction hs)
  case Nil
  show ?case
    unfolding tar_loop.simps
    by (rule hoare_then [OF ctx], rule hoare_then [OF tar_next_rule])
      (auto intro: hoare_ret fails split: option.split)
next
  case (Cons h hs)
  show ?case
  proof (cases "path_base (th_name h) = m")
    case False
    then have eq: "tar_member (h # hs) m = tar_member hs m"
      by (simp add: tar_member_def)
    show ?thesis
      unfolding eq tar_loop.simps if_P [OF False]
      by (rule hoare_then [OF ctx], rule hoare_then [OF tar_next_rule], rule Cons)
  next
    case True
    show ?thesis
    proof (cases "th_name h = m \<and> th_typeflag h = TypeReg \<and> 0 < th_size h \<and> th_size h \<le> maxBinaryBytes")
      case False
      with True show ?thesis
        by (auto intro!: hoare_then [OF ctx] hoare_then [OF tar_next_rule] fails)
    next
      case ok: True
      let ?d = "take (nat (th_size h)) (stream_data (th_data h))"
      have tail: "hoare (\<lambda>w. Inv out w \<and> out = ?d \<and> th_size h \<le> int (length (stream_data (th_data h))))
          (tar_loop wr m tend hs (int (length out)) True)
          (\<lambda>r w. tend = None \<and>
             (if snd r then \<exists>d. tar_member (h # hs) m = Some d \<and> fst r = int (length d) \<and> Inv d w
              else Inv [] w))
          (\<lambda>_. Bad)" for out
      proof (cases "out = ?d \<and> th_size h \<le> int (length (stream_data (th_data h)))")
        case False
        then show ?thesis by (auto simp: hoare_def)
      next
        case out: True
        show ?thesis
          by (rule hoare_weaken [OF tar_loop_found [of out m tend hs "int (length out)"]])
            (use ok out True in \<open>auto simp: tar_member_def\<close>)
      qed
      have step: "tar_loop wr m tend (h # hs) n False =
          thenE ctx_check (thenE tar_next
            (bindE (wrapE ''read binary member %q: %w'' [AStr m]
                (copyN (syscall (ret ())) wr (th_size h) (th_data h)))
              (\<lambda>out. if int (length out) \<noteq> th_size h
                then fail (Errorf ''binary member %q has an invalid expanded size'' [AStr m])
                else tar_loop wr m tend hs (int (length out)) True)))"
        using True ok by (simp add: not_le not_less)
      show ?thesis
        unfolding step
        by (rule hoare_then [OF ctx], rule hoare_then [OF tar_next_rule],
            rule hoare_bind [OF tar_copy_rule], simp add: ok, rule hoare_if, rule hoare_pre [OF fails], blast,
            rule tail)
    qed
  qed
qed

lemma extract_tar_sound:
  assumes "0 \<le> maxExpanded"
  shows "hoare (Inv []) (extractTarGzContext lib archive m maxExpanded wr)
    (\<lambda>n w. \<exists>d. tar_select lib content maxExpanded m = Some d \<and> n = int (length d) \<and> Inv d w)
    (\<lambda>_. Bad)"
  unfolding extractTarGzContext_def
proof (rule hoare_bind)
  show "hoare (Inv [])
     (wrapE ''open gzip stream: %w'' []
       (thenE ctx_check (bindE (os_content archive) (\<lambda>content. liftE (gunzip lib content)))))
     (\<lambda>r w. Inv [] w \<and> gunzip lib content = Inr r) (\<lambda>_. Bad)"
    by (rule hoare_wrap_any, rule hoare_then [OF ctx], rule hoare_bind [OF content_read])
      (auto intro!: hoare_lift intro: bad)
next
  fix r :: "bytes \<times> gerror option"
  obtain expanded err where r: "r = (expanded, err)" by (cases r)
  let ?ta = "untar lib (take (nat (maxExpanded + 1)) expanded)
    (if int (length expanded) > maxExpanded then None else err)"
  show "hoare (\<lambda>w. Inv [] w \<and> gunzip lib content = Inr r)
     (case r of (expanded, err) \<Rightarrow>
        let ta = untar lib (take (nat (maxExpanded + 1)) expanded)
                   (if int (length expanded) > maxExpanded then None else err)
        in bindE (tar_loop wr m (ta_end ta) (ta_entries ta) 0 False)
             (\<lambda>(written, found).
                if maxExpanded + 1 - ta_consumed ta \<le> 0
                then fail (Errorf ''expanded archive exceeds the %d-byte limit'' [AInt maxExpanded])
                else if \<not> found
                then fail (Errorf ''archive has no exact regular root member %q'' [AStr m])
                else ret written))
     (\<lambda>n w. \<exists>d. tar_select lib content maxExpanded m = Some d \<and> n = int (length d) \<and> Inv d w)
     (\<lambda>_. Bad)"
  proof (cases "gunzip lib content = Inr r")
    case False
    then show ?thesis by (simp add: hoare_def)
  next
    case True
    have loop: "hoare (\<lambda>w. Inv [] w \<and> gunzip lib content = Inr r)
        (tar_loop wr m (ta_end ?ta) (ta_entries ?ta) 0 False)
        (\<lambda>r w. ta_end ?ta = None \<and>
           (if snd r then \<exists>d. tar_member (ta_entries ?ta) m = Some d \<and> fst r = int (length d) \<and> Inv d w
            else Inv [] w)) (\<lambda>_. Bad)"
      by (rule hoare_pre [OF tar_loop_sound]) simp
    show ?thesis
      unfolding r Let_def prod.case
      by (rule hoare_bind [OF loop [unfolded r]])
        (use True r bad in \<open>auto simp: hoare_def fail_def ret_def tar_select_def split: if_splits\<close>)
  qed
qed

lemma zip_loop_found:
  "hoare (Inv c) (zip_loop wr m fs n True)
     (\<lambda>r w. r = (n, True) \<and> Inv c w \<and> filter (\<lambda>f. path_base (ze_name f) = m) fs = [])
     (\<lambda>_. Bad)"
proof (induction fs)
  case Nil
  show ?case by (auto intro: hoare_ret)
next
  case (Cons f fs)
  show ?case
  proof (cases "path_base (ze_name f) = m")
    case False
    with Cons show ?thesis by (auto intro!: hoare_then [OF ctx])
  next
    case True
    then show ?thesis by (auto intro!: hoare_then [OF ctx] fails)
  qed
qed

lemma zip_copy_rule:
  assumes "int k \<le> maxBinaryBytes + 1"
  shows "hoare (Inv [])
     (wrapE f a (copy_limited False (contextReader (syscall (ret ()))) no_hook wr k s []))
     (\<lambda>out w. Inv out w \<and> out = take k (stream_data s)) (\<lambda>_. Bad)"
  by (rule hoare_wrap_any,
      rule hoare_weaken [OF copy_limited_upto [where I = Inv and J = "\<lambda>acc _. Inv acc" and k = k]])
    (use assms in \<open>auto simp: no_hook_def intro: reader_rule wr_rule bad hoare_ret\<close>)

text \<open>
  The declared size is a 64-bit word: a copy of at most \<^verbatim>\<open>maxBinaryBytes\<close> bytes equals it as a word
  exactly when it equals it as a number.
\<close>

lemma usize_eq:
  fixes u :: "64 word"
  assumes "word_of_int k = u" "0 \<le> k" "k \<le> maxBinaryBytes"
  shows "uint u = k"
proof -
  have "k mod 2 ^ 64 = k"
    using assms(2,3) by (simp add: maxBinaryBytes_def)
  with assms(1) show ?thesis
    by (auto simp: word_of_int_inverse take_bit_eq_mod simp flip: uint_word_of_int)
qed

lemma zip_finish:
  assumes f: "path_base (ze_name f) = m" "ze_name f = m" "ze_regular f" "ze_usize f \<noteq> 0"
      "\<not> ze_usize f > word_of_int maxBinaryBytes"
    and opened: "ze_open f = Inr s"
  shows "hoare (\<lambda>w. Inv out w \<and> out = take (nat (maxBinaryBytes + 1)) (stream_data s))
     (case ze_close f of
        Some e \<Rightarrow> fail (Wrapf ''close binary member %q: %w'' [AStr m] e)
      | None \<Rightarrow>
          if word_of_int (int (length out)) \<noteq> ze_usize f \<or> int (length out) > maxBinaryBytes
          then fail (Errorf ''binary member %q has an invalid expanded size'' [AStr m])
          else zip_loop wr m fs (int (length out)) True)
     (\<lambda>r w. if snd r then \<exists>d. zip_member (f # fs) m = Some d \<and> fst r = int (length d) \<and> Inv d w
            else Inv [] w) (\<lambda>_. Bad)"
proof (cases "out = take (nat (maxBinaryBytes + 1)) (stream_data s) \<and> ze_close f = None
    \<and> word_of_int (int (length out)) = ze_usize f \<and> int (length out) \<le> maxBinaryBytes")
  case False
  then consider "out \<noteq> take (nat (maxBinaryBytes + 1)) (stream_data s)"
    | e where "ze_close f = Some e"
    | "ze_close f = None"
      "word_of_int (int (length out)) \<noteq> ze_usize f \<or> int (length out) > maxBinaryBytes"
    by fastforce
  then show ?thesis
  proof cases
    case 1
    then show ?thesis by (simp add: hoare_def)
  next
    case 2
    then show ?thesis by (simp only: option.case) (rule hoare_pre [OF fails], blast)
  next
    case 3
    then show ?thesis by (simp only: option.case if_True) (rule hoare_pre [OF fails], blast)
  qed
next
  case True
  then have len: "uint (ze_usize f) = int (length out)"
    by (intro usize_eq) auto
  have "length (stream_data s) < nat (maxBinaryBytes + 1)"
    using True by auto
  then have out: "out = stream_data s" using True by simp
  have pos: "0 < uint (ze_usize f)"
    using f(4) uint_0_iff [of "ze_usize f"] uint_ge_0 [of "ze_usize f"] by linarith
  have sel: "zip_member (f # fs) m = Some out" if "filter (\<lambda>f. path_base (ze_name f) = m) fs = []"
    using that f opened True len out pos by (simp add: zip_member_def)
  have loop: "hoare (Inv out) (zip_loop wr m fs (int (length out)) True)
     (\<lambda>r w. if snd r then \<exists>d. zip_member (f # fs) m = Some d \<and> fst r = int (length d) \<and> Inv d w
            else Inv [] w) (\<lambda>_. Bad)"
    by (rule hoare_weaken [OF zip_loop_found]) (use sel in auto)
  have c: "ze_close f = None"
    and n: "\<not> (word_of_int (int (length out)) \<noteq> ze_usize f \<or> int (length out) > maxBinaryBytes)"
    using True by (blast, metis linorder_not_le)
  show ?thesis
    unfolding c option.case if_not_P [OF n] by (rule hoare_pre [OF loop]) blast
qed

lemma zip_loop_sound:
  "hoare (Inv []) (zip_loop wr m fs n False)
     (\<lambda>r w. if snd r then \<exists>d. zip_member fs m = Some d \<and> fst r = int (length d) \<and> Inv d w
            else Inv [] w)
     (\<lambda>_. Bad)"
proof (induction fs)
  case Nil
  show ?case by (auto intro: hoare_ret)
next
  case (Cons f fs)
  show ?case
  proof (cases "path_base (ze_name f) = m")
    case False
    then have eq: "zip_member (f # fs) m = zip_member fs m"
      by (simp add: zip_member_def)
    show ?thesis
      unfolding eq zip_loop.simps if_P [OF False]
      by (rule hoare_then [OF ctx], rule Cons)
  next
    case True
    show ?thesis
    proof (cases "ze_name f = m \<and> ze_regular f \<and> ze_usize f \<noteq> 0
        \<and> \<not> ze_usize f > word_of_int maxBinaryBytes \<and> (\<exists>s. ze_open f = Inr s)")
      case False
      have "hoare (Inv []) (bindE (wrapE g a (liftE (Inl e))) k) Q (\<lambda>_. Bad)"
        for g a e and k :: "'c \<Rightarrow> 'd io" and Q
        by (auto simp: hoare_def bindE_def wrapE_def handleE_def liftE_def fail_def bad)
      with True False show ?thesis
        by (cases "ze_open f") (auto intro!: hoare_then [OF ctx] fails)
    next
      case ok: True
      then obtain s where s: "ze_open f = Inr s" by blast
      have step: "zip_loop wr m (f # fs) n False =
          thenE ctx_check
            (bindE (wrapE ''open binary member %q: %w'' [AStr m] (liftE (ze_open f)))
              (\<lambda>opened. bindE (wrapE ''read binary member %q: %w'' [AStr m]
                  (copy_limited False (contextReader (syscall (ret ()))) no_hook wr
                    (nat (maxBinaryBytes + 1)) opened []))
                (\<lambda>out. case ze_close f of
                   Some e \<Rightarrow> fail (Wrapf ''close binary member %q: %w'' [AStr m] e)
                 | None \<Rightarrow>
                     if word_of_int (int (length out)) \<noteq> ze_usize f
                        \<or> int (length out) > maxBinaryBytes
                     then fail (Errorf ''binary member %q has an invalid expanded size'' [AStr m])
                     else zip_loop wr m fs (int (length out)) True)))"
        using True ok by simp
      have opn: "hoare (Inv []) (wrapE ''open binary member %q: %w'' [AStr m] (liftE (ze_open f)))
          (\<lambda>opened w. Inv [] w \<and> opened = s) (\<lambda>_. Bad)"
        using s by (auto intro!: hoare_wrap_any hoare_lift)
      show ?thesis
        unfolding step
      proof (rule hoare_then [OF ctx], rule hoare_bind [OF opn])
        fix opened
        show "hoare (\<lambda>w. Inv [] w \<and> opened = s)
          (bindE (wrapE ''read binary member %q: %w'' [AStr m]
                  (copy_limited False (contextReader (syscall (ret ()))) no_hook wr
                    (nat (maxBinaryBytes + 1)) opened []))
                (\<lambda>out. case ze_close f of
                   Some e \<Rightarrow> fail (Wrapf ''close binary member %q: %w'' [AStr m] e)
                 | None \<Rightarrow>
                     if word_of_int (int (length out)) \<noteq> ze_usize f
                        \<or> int (length out) > maxBinaryBytes
                     then fail (Errorf ''binary member %q has an invalid expanded size'' [AStr m])
                     else zip_loop wr m fs (int (length out)) True))
          (\<lambda>r w. if snd r then \<exists>d. zip_member (f # fs) m = Some d \<and> fst r = int (length d) \<and> Inv d w
                 else Inv [] w) (\<lambda>_. Bad)"
        proof (cases "opened = s")
          case op: True
          show ?thesis
            unfolding op
            by (rule hoare_pre [OF hoare_bind [OF zip_copy_rule zip_finish]])
              (use True ok s in \<open>auto simp: maxBinaryBytes_def\<close>)
        qed (simp add: hoare_def)
      qed
    qed
  qed
qed

lemma extract_zip_sound:
  "hoare (Inv []) (extractZIPContext lib archive asize m wr)
    (\<lambda>n w. \<exists>d. zip_select lib content asize m = Some d \<and> n = int (length d) \<and> Inv d w)
    (\<lambda>_. Bad)"
  unfolding extractZIPContext_def
proof (rule hoare_then [OF ctx], rule hoare_bind)
  show "hoare (Inv [])
     (wrapE ''open ZIP archive: %w'' []
       (bindE (os_content archive) (\<lambda>content. liftE (unzip lib content asize))))
     (\<lambda>fs w. Inv [] w \<and> unzip lib content asize = Inr fs) (\<lambda>_. Bad)"
    by (rule hoare_wrap_any, rule hoare_bind [OF content_read]) (auto intro!: hoare_lift intro: bad)
next
  fix fs
  have loop: "hoare (\<lambda>w. Inv [] w \<and> unzip lib content asize = Inr fs) (zip_loop wr m fs 0 False)
     (\<lambda>r w. if snd r then \<exists>d. zip_member fs m = Some d \<and> fst r = int (length d) \<and> Inv d w
            else Inv [] w) (\<lambda>_. Bad)"
    by (rule hoare_pre [OF zip_loop_sound]) simp
  show "hoare (\<lambda>w. Inv [] w \<and> unzip lib content asize = Inr fs)
     (if length fs > maxZIPEntries
      then fail (Errorf ''ZIP archive has more than %d entries'' [AInt (int maxZIPEntries)])
      else bindE (zip_loop wr m fs 0 False)
             (\<lambda>(written, found).
                if \<not> found
                then fail (Errorf ''archive has no exact regular root member %q'' [AStr m])
                else ret written))
     (\<lambda>n w. \<exists>d. zip_select lib content asize m = Some d \<and> n = int (length d) \<and> Inv d w)
     (\<lambda>_. Bad)"
  proof (cases "unzip lib content asize = Inr fs \<and> length fs \<le> maxZIPEntries")
    case False
    then show ?thesis by (auto simp: hoare_def fail_def bad)
  next
    case True
    then have "\<not> length fs > maxZIPEntries" by simp
    then show ?thesis
      by (simp only: if_False)
        (rule hoare_bind [OF loop],
          use True bad in \<open>auto simp: hoare_def fail_def ret_def zip_select_def split: if_splits\<close>)
  qed
qed

text \<open>Both formats behind the dispatch on the asset's name.\<close>

lemma extract_sound:
  "hoare (Inv []) (extractArchive lib asset archive asize m wr)
    (\<lambda>n w. \<exists>d. archive_select lib asset content asize m = Some d \<and> n = int (length d) \<and> Inv d w)
    (\<lambda>_. Bad)"
proof -
  have "0 \<le> maxExpandedArchiveBytes" by (simp add: maxExpandedArchiveBytes_def)
  then show ?thesis
    using extract_tar_sound [of maxExpandedArchiveBytes lib m] extract_zip_sound [of lib asize m]
    by (auto simp: extractArchive_def archive_select_def intro: fails)
qed

end

section \<open>A concrete library, for the witnesses\<close>

text \<open>Archives with one member, the tool, whose bytes are the archive's own bytes.\<close>

definition sample_archive :: archive_lib where
  "sample_archive =
     \<lparr>gunzip = (\<lambda>bs. Inr (bs, None)),
      untar = (\<lambda>bs e. \<lparr>ta_entries =
          [\<lparr>th_name = ''tool'', th_typeflag = TypeReg, th_size = int (length bs), th_data = file_stream bs\<rparr>],
        ta_end = e, ta_consumed = int (length bs)\<rparr>),
      unzip = (\<lambda>bs n. Inr
          [\<lparr>ze_name = ''tool.exe'', ze_regular = True, ze_usize = word_of_int (int (length bs)),
            ze_open = Inr (file_stream bs), ze_close = None\<rparr>])\<rparr>"

section \<open>Which archives are rejected\<close>

text \<open>A member that may be the command: at the root, regular, of an admissible size.\<close>

definition sound_tar :: "string \<Rightarrow> tar_entry \<Rightarrow> bool" where
  "sound_tar m h \<longleftrightarrow> (path_base (th_name h) = m \<longrightarrow>
     th_name h = m \<and> th_typeflag h = TypeReg \<and> 0 < th_size h \<and> th_size h \<le> maxBinaryBytes)"

lemma tar_loop_found_none:
  "tar_loop wr m tend hs n True w = (Inr r, w') \<Longrightarrow> \<forall>h \<in> set hs. path_base (th_name h) \<noteq> m"
proof (induction hs arbitrary: w)
  case (Cons h hs)
  then show ?case by (auto simp: Inr_simps split: if_splits)
qed simp

text \<open>C14 A tar archive with a member of the command's name that is nested, not a regular file, empty or too
  large, or with two of them, is rejected whatever else it holds and however reading and writing go.\<close>

theorem tar_loop_rejects:
  assumes "\<not> list_all (sound_tar m) hs \<or> 1 < length (filter (\<lambda>h. path_base (th_name h) = m) hs)"
  shows "\<exists>e w'. tar_loop wr m tend hs n found w = (Inl e, w')"
proof -
  have "list_all (sound_tar m) hs \<and> length (filter (\<lambda>h. path_base (th_name h) = m) hs) \<le> 1"
    if "tar_loop wr m tend hs n found w = (Inr r, w')" for r w'
    using that
  proof (induction hs arbitrary: n found w)
    case (Cons h hs)
    show ?case
    proof (cases "path_base (th_name h) = m")
      case False
      with Cons show ?thesis by (auto simp: sound_tar_def Inr_simps split: if_splits)
    next
      case True
      with Cons.prems have h: "sound_tar m h"
        by (auto simp: sound_tar_def Inr_simps not_le split: if_splits)
      from True Cons.prems obtain k w1 where rest: "tar_loop wr m tend hs k True w1 = (Inr r, w')"
        by (auto simp: Inr_simps split: if_splits)
      have "filter (\<lambda>h. path_base (th_name h) = m) hs = []"
        using tar_loop_found_none [OF rest] by (auto simp: filter_empty_conv)
      with h Cons.IH [OF rest] show ?thesis by simp
    qed
  qed simp
  with assms show ?thesis
    by (cases "tar_loop wr m tend hs n found w") (metis not_le sum.exhaust)
qed

theorem tar_loop_rejects_witness:
  "\<exists>e w'. tar_loop no_write ''tool'' None
     [\<lparr>th_name = ''bin/tool'', th_typeflag = TypeReg, th_size = 1, th_data = [plain_read ''x'']\<rparr>] 0 False empty_world
     = (Inl e, w')"
proof (rule tar_loop_rejects)
  show "\<not> list_all (sound_tar ''tool'')
      [\<lparr>th_name = ''bin/tool'', th_typeflag = TypeReg, th_size = 1, th_data = [plain_read ''x'']\<rparr>]
    \<or> 1 < length (filter (\<lambda>h. path_base (th_name h) = ''tool'')
      [\<lparr>th_name = ''bin/tool'', th_typeflag = TypeReg, th_size = 1, th_data = [plain_read ''x'']\<rparr>])"
    by code_simp
qed

definition sound_zip :: "string \<Rightarrow> zip_entry \<Rightarrow> bool" where
  "sound_zip m f \<longleftrightarrow> (path_base (ze_name f) = m \<longrightarrow>
     ze_name f = m \<and> ze_regular f \<and> 0 < uint (ze_usize f) \<and> uint (ze_usize f) \<le> maxBinaryBytes)"

lemma zip_loop_found_none:
  "zip_loop wr m fs n True w = (Inr r, w') \<Longrightarrow> \<forall>f \<in> set fs. path_base (ze_name f) \<noteq> m"
proof (induction fs arbitrary: w)
  case (Cons f fs)
  then show ?case by (auto simp: Inr_simps split: if_splits)
qed simp

lemma maxBinary_word: "uint (word_of_int maxBinaryBytes :: 64 word) = maxBinaryBytes"
  by (simp add: maxBinaryBytes_def)

text \<open>C15 The same for a ZIP archive, whose sizes are 64-bit words.\<close>

theorem zip_loop_rejects:
  assumes "\<not> list_all (sound_zip m) fs \<or> 1 < length (filter (\<lambda>f. path_base (ze_name f) = m) fs)"
  shows "\<exists>e w'. zip_loop wr m fs n found w = (Inl e, w')"
proof -
  have "list_all (sound_zip m) fs \<and> length (filter (\<lambda>f. path_base (ze_name f) = m) fs) \<le> 1"
    if "zip_loop wr m fs n found w = (Inr r, w')" for r w'
    using that
  proof (induction fs arbitrary: n found w)
    case (Cons f fs)
    show ?case
    proof (cases "path_base (ze_name f) = m")
      case False
      with Cons show ?thesis by (auto simp: sound_zip_def Inr_simps split: if_splits)
    next
      case True
      with Cons.prems have "ze_name f = m \<and> ze_regular f \<and> ze_usize f \<noteq> 0 \<and> ze_usize f \<le> word_of_int maxBinaryBytes"
        by (auto simp: Inr_simps not_less split: if_splits)
      then have f: "sound_zip m f"
        by (auto simp: sound_zip_def word_le_def maxBinary_word word_neq_0_conv word_less_def)
      from True Cons.prems obtain k w1 where rest: "zip_loop wr m fs k True w1 = (Inr r, w')"
        by (auto simp: Inr_simps split: if_splits option.splits)
      have "filter (\<lambda>f. path_base (ze_name f) = m) fs = []"
        using zip_loop_found_none [OF rest] by (auto simp: filter_empty_conv)
      with f Cons.IH [OF rest] show ?thesis by simp
    qed
  qed simp
  with assms show ?thesis
    by (cases "zip_loop wr m fs n found w") (metis not_le sum.exhaust)
qed

theorem zip_loop_rejects_witness:
  "\<exists>e w'. zip_loop no_write ''tool.exe''
     [\<lparr>ze_name = ''tool.exe'', ze_regular = False, ze_usize = 1, ze_open = Inr [], ze_close = None\<rparr>] 0 False empty_world
     = (Inl e, w')"
proof (rule zip_loop_rejects)
  show "\<not> list_all (sound_zip ''tool.exe'')
      [\<lparr>ze_name = ''tool.exe'', ze_regular = False, ze_usize = 1, ze_open = Inr [], ze_close = None\<rparr>]
    \<or> 1 < length (filter (\<lambda>f. path_base (ze_name f) = ''tool.exe'')
      [\<lparr>ze_name = ''tool.exe'', ze_regular = False, ze_usize = 1, ze_open = Inr [], ze_close = None\<rparr>])"
    by (simp add: sound_zip_def path_base_def)
qed

end
