(* ===== verification/Hex.thy ===== *)
theory Hex
  imports Errors
begin

text \<open>
  \<^verbatim>\<open>encoding/hex\<close>, the lower-case check of install.go and the digest syntax of http.go. The
  round trips say that a digest string names exactly one digest and every digest has one name.
\<close>

definition hex_digits :: "char list" where
  "hex_digits = ''0123456789abcdef''"

definition hex_digit :: "nat \<Rightarrow> char" where
  "hex_digit n = hex_digits ! n"

fun hex_encode :: "bytes \<Rightarrow> string" where
  "hex_encode [] = []"
| "hex_encode (b # bs) = hex_digit (bval b div 16) # hex_digit (bval b mod 16) # hex_encode bs"

text \<open>\<^verbatim>\<open>hex.Decode\<close> also takes upper-case digits.\<close>

definition hex_val :: "char \<Rightarrow> nat option" where
  "hex_val c =
     (let b = bval c in
      if in_range 48 57 b then Some (b - 48)
      else if in_range 97 102 b then Some (b - 87)
      else if in_range 65 70 b then Some (b - 55) else None)"

fun hex_decode :: "string \<Rightarrow> bytes option" where
  "hex_decode [] = Some []"
| "hex_decode [c] = None"
| "hex_decode (c # d # cs) =
     (case (hex_val c, hex_val d) of
        (Some a, Some b) \<Rightarrow>
          (case hex_decode cs of None \<Rightarrow> None | Some bs \<Rightarrow> Some (char_of (a * 16 + b) # bs))
      | _ \<Rightarrow> None)"

definition isLowerHex :: "string \<Rightarrow> bool" where
  "isLowerHex value \<longleftrightarrow>
     list_all (\<lambda>character. \<not> ((character < CHR ''0'' \<or> character > CHR ''9'')
       \<and> (character < CHR ''a'' \<or> character > CHR ''f''))) value"

lemma bval_less: "bval c < 256"
  by (simp add: bval_def)

lemma nat16_cases:
  "(n::nat) < 16 \<Longrightarrow> n \<in> {0, 1, 2, 3, 4, 5, 6, 7, 8, 9, 10, 11, 12, 13, 14, 15}"
  unfolding insert_iff empty_iff by arith

lemma hex_val_digit [simp]: "n < 16 \<Longrightarrow> hex_val (hex_digit n) = Some n"
  by (drule nat16_cases)
    (auto simp: hex_val_def hex_digit_def hex_digits_def bval_def in_range_def)

lemma hex_digit_in [simp]: "n < 16 \<Longrightarrow> hex_digit n \<in> set hex_digits"
  by (drule nat16_cases) (auto simp: hex_digit_def hex_digits_def)

lemma char_less_bval: "c < d \<longleftrightarrow> bval c < bval d"
  by (simp add: less_char_def bval_def)

lemma isLowerHex_bval:
  "isLowerHex s \<longleftrightarrow> list_all (\<lambda>c. in_range 48 57 (bval c) \<or> in_range 97 102 (bval c)) s"
  unfolding isLowerHex_def char_less_bval
  by (rule arg_cong [where f = "\<lambda>p. list_all p s"]) (auto simp: fun_eq_iff in_range_def bval_def)

lemma in_range_cases:
  "in_range 48 57 n \<Longrightarrow> n \<in> {48, 49, 50, 51, 52, 53, 54, 55, 56, 57}"
  "in_range 97 102 n \<Longrightarrow> n \<in> {97, 98, 99, 100, 101, 102}"
  unfolding in_range_def insert_iff empty_iff by arith+

lemma lower_hex_digit:
  "in_range 48 57 (bval c) \<or> in_range 97 102 (bval c) \<longleftrightarrow> c \<in> set hex_digits"
proof
  assume "in_range 48 57 (bval c) \<or> in_range 97 102 (bval c)"
  then have "bval c \<in> bval ` set hex_digits"
    using in_range_cases [of "bval c"] by (auto simp: hex_digits_def bval_def)
  then show "c \<in> set hex_digits" by (auto simp: bval_def)
qed (auto simp: hex_digits_def in_range_def bval_def)

lemma isLowerHex_iff: "isLowerHex s \<longleftrightarrow> set s \<subseteq> set hex_digits"
  by (auto simp: isLowerHex_bval lower_hex_digit list_all_iff)

lemma length_hex_encode [simp]: "length (hex_encode bs) = 2 * length bs"
  by (induction bs) auto

lemma hex_encode_lower [simp]: "isLowerHex (hex_encode bs)"
  unfolding isLowerHex_iff
  using bval_less by (induction bs) (auto simp: less_mult_imp_div_less)

lemma hex_decode_encode [simp]: "hex_decode (hex_encode bs) = Some bs"
proof (induction bs)
  case (Cons b bs)
  have "bval b div 16 < 16" using bval_less [of b] by auto
  moreover have "char_of (bval b div 16 * 16 + bval b mod 16) = b"
    by (simp add: bval_def)
  ultimately show ?case using Cons by simp
qed simp

lemma hex_digit_val:
  "c \<in> set hex_digits \<Longrightarrow> \<exists>n < 16. hex_val c = Some n \<and> hex_digit n = c"
  by (auto simp: hex_digits_def hex_val_def hex_digit_def bval_def in_range_def)

lemma hex_encode_decode:
  "set s \<subseteq> set hex_digits \<Longrightarrow> even (length s) \<Longrightarrow> \<exists>bs. hex_decode s = Some bs \<and> hex_encode bs = s"
proof (induction s rule: hex_decode.induct)
  case (3 c d cs)
  obtain a where a: "a < 16" "hex_val c = Some a" "hex_digit a = c"
    using hex_digit_val "3.prems" by auto
  obtain b where b: "b < 16" "hex_val d = Some b" "hex_digit b = d"
    using hex_digit_val "3.prems" by auto
  obtain bs where bs: "hex_decode cs = Some bs" "hex_encode bs = cs"
    using "3.IH" [OF refl a(2) b(2)] "3.prems" by auto
  have "bval (char_of (a * 16 + b)) = a * 16 + b"
    using a b by (simp add: bval_def)
  with a b bs show ?case by auto
qed auto

section \<open>parseAssetDigest (http.go)\<close>

definition digest_prefix :: string where
  "digest_prefix = ''sha256:''"

definition parseAssetDigest :: "string \<Rightarrow> gerror + bytes" where
  "parseAssetDigest value =
     (if length value \<noteq> length digest_prefix + 32 * 2 \<or> \<not> has_prefix value digest_prefix
      then Inl (ErrorString ''digest must be sha256 followed by 64 lowercase hexadecimal digits'')
      else
        (let hexDigest = drop (length digest_prefix) value
         in if \<not> isLowerHex hexDigest then Inl (ErrorString ''digest must use lowercase hexadecimal digits'')
            else (case hex_decode hexDigest of
                    None \<Rightarrow> Inl (ErrorString ''digest must use lowercase hexadecimal digits'')
                  | Some digest \<Rightarrow> Inr digest)))"

lemma parseAssetDigest_iff:
  "parseAssetDigest s = Inr d \<longleftrightarrow> length d = 32 \<and> s = digest_prefix @ hex_encode d"
proof
  assume p: "parseAssetDigest s = Inr d"
  then obtain r where r: "s = digest_prefix @ r" "length r = 64" "isLowerHex r"
    "hex_decode r = Some d"
    by (auto simp: parseAssetDigest_def has_prefix_iff Let_def split: if_splits option.splits)
  then obtain d' where "hex_decode r = Some d'" "hex_encode d' = r"
    using hex_encode_decode [of r] by (auto simp: isLowerHex_iff)
  with r have "hex_encode d = r" by simp
  moreover from this have "length d = 32" using length_hex_encode [of d] r by simp
  ultimately show "length d = 32 \<and> s = digest_prefix @ hex_encode d" using r by simp
next
  assume "length d = 32 \<and> s = digest_prefix @ hex_encode d"
  then show "parseAssetDigest s = Inr d" by (simp add: parseAssetDigest_def Let_def)
qed

text \<open>C32 The digest text of an asset is accepted exactly when it is \<^verbatim>\<open>sha256:\<close> followed by the lower-case
  hexadecimal encoding of the 32 bytes returned: parsing and printing are inverse.\<close>

theorem digest_roundtrip:
  "parseAssetDigest s = Inr d \<longleftrightarrow> length d = 32 \<and> s = ''sha256:'' @ hex_encode d"
  using parseAssetDigest_iff by (simp add: digest_prefix_def)

end
