(* ===== verification/Regex.thy ===== *)
theory Regex
  imports Prelude
begin

text \<open>
  The anchored regular expressions of selfupdate.go (\<^verbatim>\<open>ownerPattern\<close>, \<^verbatim>\<open>repositoryPattern\<close>,
  \<^verbatim>\<open>commandPattern\<close>, \<^verbatim>\<open>stableVersionPattern\<close>). Each is a term of a small regular-expression
  language with an executable matcher by derivatives (\<open>match_string\<close>), which is proved equal to
  the inductive meaning of the expression (\<open>match_string_iff\<close>). The patterns start with \<^verbatim>\<open>^\<close> and end with \<^verbatim>\<open>$\<close>
  without flags, so \<^verbatim>\<open>MatchString\<close> asks for a match of the whole text. The classes hold ASCII
  characters only, so matching bytes and matching runes agree.
\<close>

datatype rx =
    Zero
  | One
  | Cls "char list"
  | Cat rx rx
  | Alt rx rx
  | Star rx

inductive in_rx :: "rx \<Rightarrow> string \<Rightarrow> bool" where
  one: "in_rx One []"
| cls: "c \<in> set cs \<Longrightarrow> in_rx (Cls cs) [c]"
| cat: "in_rx r s \<Longrightarrow> in_rx q t \<Longrightarrow> in_rx (Cat r q) (s @ t)"
| alt1: "in_rx r s \<Longrightarrow> in_rx (Alt r q) s"
| alt2: "in_rx q s \<Longrightarrow> in_rx (Alt r q) s"
| star0: "in_rx (Star r) []"
| star1: "in_rx r s \<Longrightarrow> in_rx (Star r) t \<Longrightarrow> in_rx (Star r) (s @ t)"

inductive_simps in_rx_simps [simp]:
  "in_rx Zero s"
  "in_rx One s"
  "in_rx (Cls cs) s"
  "in_rx (Alt r q) s"

inductive_cases in_rx_CatE: "in_rx (Cat r q) s"
inductive_cases in_rx_StarE: "in_rx (Star r) s"

fun nullable :: "rx \<Rightarrow> bool" where
  "nullable Zero = False"
| "nullable One = True"
| "nullable (Cls cs) = False"
| "nullable (Cat r q) = (nullable r \<and> nullable q)"
| "nullable (Alt r q) = (nullable r \<or> nullable q)"
| "nullable (Star r) = True"

fun deriv :: "char \<Rightarrow> rx \<Rightarrow> rx" where
  "deriv c Zero = Zero"
| "deriv c One = Zero"
| "deriv c (Cls cs) = (if c \<in> set cs then One else Zero)"
| "deriv c (Cat r q) = (if nullable r then Alt (Cat (deriv c r) q) (deriv c q) else Cat (deriv c r) q)"
| "deriv c (Alt r q) = Alt (deriv c r) (deriv c q)"
| "deriv c (Star r) = Cat (deriv c r) (Star r)"

fun match_string :: "rx \<Rightarrow> string \<Rightarrow> bool" where
  "match_string r [] = nullable r"
| "match_string r (c # s) = match_string (deriv c r) s"

lemma in_rx_Cat: "in_rx (Cat r q) s \<longleftrightarrow> (\<exists>u v. s = u @ v \<and> in_rx r u \<and> in_rx q v)"
  by (blast elim: in_rx_CatE intro: in_rx.cat)

lemma nullable_iff: "nullable r \<longleftrightarrow> in_rx r []"
  by (induction r) (auto simp: in_rx_Cat intro: in_rx.star0)

lemma in_rx_Star_Cons:
  "in_rx (Star r) (c # s) \<longleftrightarrow> (\<exists>u v. s = u @ v \<and> in_rx r (c # u) \<and> in_rx (Star r) v)"
proof
  assume "in_rx (Star r) (c # s)"
  then show "\<exists>u v. s = u @ v \<and> in_rx r (c # u) \<and> in_rx (Star r) v"
    by (induction "Star r" "c # s" rule: in_rx.induct) (auto simp: append_eq_Cons_conv)
next
  assume "\<exists>u v. s = u @ v \<and> in_rx r (c # u) \<and> in_rx (Star r) v"
  then show "in_rx (Star r) (c # s)"
    using in_rx.star1 by fastforce
qed

lemma deriv_iff: "in_rx (deriv c r) s \<longleftrightarrow> in_rx r (c # s)"
proof (induction r arbitrary: s)
  case (Cat r q)
  then show ?case
    by (auto simp: in_rx_Cat nullable_iff Cons_eq_append_conv)
next
  case (Star r)
  then show ?case by (auto simp: in_rx_Cat in_rx_Star_Cons)
qed auto

theorem match_string_iff: "match_string r s \<longleftrightarrow> in_rx r s"
  by (induction s arbitrary: r) (auto simp: nullable_iff deriv_iff)

lemma in_rx_Star_Cls: "in_rx (Star (Cls cs)) s \<longleftrightarrow> set s \<subseteq> set cs"
proof (induction s)
  case Nil
  then show ?case by (simp add: in_rx.star0)
next
  case (Cons c s)
  then show ?case by (auto simp: in_rx_Star_Cons)
qed

section \<open>The patterns of selfupdate.go\<close>

definition digits :: "char list" where
  "digits = ''0123456789''"

definition alnum :: "char list" where
  "alnum = ''ABCDEFGHIJKLMNOPQRSTUVWXYZabcdefghijklmnopqrstuvwxyz'' @ digits"

definition name_chars :: "char list" where
  "name_chars = alnum @ ''._-''"

definition Opt :: "rx \<Rightarrow> rx" where
  "Opt r = Alt r One"

definition ownerPattern :: rx where
  "ownerPattern = Cat (Cls alnum) (Opt (Cat (Star (Cls name_chars)) (Cls alnum)))"

definition repositoryPattern :: rx where
  "repositoryPattern = Cat (Cls name_chars) (Star (Cls name_chars))"

definition commandPattern :: rx where
  "commandPattern = Cat (Cls alnum) (Opt (Cat (Star (Cls name_chars)) (Cls alnum)))"

definition version_number :: rx where
  "version_number = Alt (Cls ''0'') (Cat (Cls ''123456789'') (Star (Cls digits)))"

definition stableVersionPattern :: rx where
  "stableVersionPattern =
     Cat (Cls ''v'') (Cat version_number (Cat (Cls ''.'')
       (Cat version_number (Cat (Cls ''.'') version_number))))"

text \<open>What the owner and command patterns accept, without the expression.\<close>

lemma alnum_subset: "set alnum \<subseteq> set name_chars"
  by (auto simp: name_chars_def)

lemma in_ownerPattern:
  "in_rx ownerPattern s \<longleftrightarrow>
     s \<noteq> [] \<and> hd s \<in> set alnum \<and> last s \<in> set alnum \<and> set s \<subseteq> set name_chars"
proof
  assume "in_rx ownerPattern s"
  then show "s \<noteq> [] \<and> hd s \<in> set alnum \<and> last s \<in> set alnum \<and> set s \<subseteq> set name_chars"
    using alnum_subset by (auto simp: ownerPattern_def Opt_def in_rx_Cat in_rx_Star_Cls)
next
  assume s: "s \<noteq> [] \<and> hd s \<in> set alnum \<and> last s \<in> set alnum \<and> set s \<subseteq> set name_chars"
  then obtain c t where ct: "s = c # t" by (cases s) auto
  show "in_rx ownerPattern s"
  proof (cases t rule: rev_cases)
    case Nil
    with s ct show ?thesis by (auto simp: ownerPattern_def Opt_def in_rx_Cat)
  next
    case (snoc u d)
    with s ct have "in_rx (Cat (Star (Cls name_chars)) (Cls alnum)) (u @ [d])"
      unfolding in_rx_Cat in_rx_Star_Cls by auto
    then have "in_rx (Opt (Cat (Star (Cls name_chars)) (Cls alnum))) t"
      using snoc by (simp add: Opt_def)
    moreover have "in_rx (Cls alnum) [c]" using s ct by simp
    ultimately show ?thesis
      using in_rx.cat [of "Cls alnum" "[c]"] ct by (simp add: ownerPattern_def)
  qed
qed

lemma commandPattern_owner: "commandPattern = ownerPattern"
  by (simp add: commandPattern_def ownerPattern_def)

lemma in_repositoryPattern: "in_rx repositoryPattern s \<longleftrightarrow> s \<noteq> [] \<and> set s \<subseteq> set name_chars"
proof (cases s)
  case Nil
  then show ?thesis by (simp add: repositoryPattern_def in_rx_Cat)
next
  case (Cons c t)
  have "in_rx repositoryPattern (c # t)" if "c \<in> set name_chars" "set t \<subseteq> set name_chars"
    using in_rx.cat [of "Cls name_chars" "[c]" "Star (Cls name_chars)" t] that
    by (simp add: repositoryPattern_def in_rx_Star_Cls)
  moreover have "set (c # t) \<subseteq> set name_chars" if "in_rx repositoryPattern (c # t)"
    using that by (auto simp: repositoryPattern_def in_rx_Cat in_rx_Star_Cls)
  ultimately show ?thesis using Cons by auto
qed

text \<open>C37 The expression for owners accepts the names of letters, digits, dots, underscores and hyphens that
  start and end with a letter or a digit, the one for repositories every non-empty name of those
  characters.\<close>

theorem patterns_match:
  "(match_string ownerPattern s \<longleftrightarrow>
      s \<noteq> [] \<and> hd s \<in> set alnum \<and> last s \<in> set alnum \<and> set s \<subseteq> set name_chars)
   \<and> (match_string commandPattern s \<longleftrightarrow> match_string ownerPattern s)
   \<and> (match_string repositoryPattern s \<longleftrightarrow> s \<noteq> [] \<and> set s \<subseteq> set name_chars)"
  by (simp add: match_string_iff in_ownerPattern in_repositoryPattern commandPattern_owner)

end
