(* ===== verification/Version.thy ===== *)
theory Version
  imports Regex
begin

text \<open>
  Exact stable versions, \<^verbatim>\<open>vMAJOR.MINOR.PATCH\<close> (\<^verbatim>\<open>isStableVersion\<close> of selfupdate.go). A version
  is a triple of numbers with the precedence order of semantic versioning; \<open>render_version\<close> writes it,
  \<open>parse_version\<close> reads it, and the regular expression accepts exactly the rendered versions.
  The package \<^verbatim>\<open>golang.org/x/mod/semver\<close> is not part of the repository: it is the parameter
  \<open>semver_lib\<close>, and \<open>semver_spec\<close> is what its documentation promises on exact versions.
\<close>

section \<open>Decimal numbers\<close>

definition digit_char :: "nat \<Rightarrow> char" where
  "digit_char d = digits ! d"

definition digit_val :: "char \<Rightarrow> nat" where
  "digit_val c = bval c - 48"

fun dec :: "nat \<Rightarrow> string" where
  "dec n = (if n < 10 then [digit_char n] else dec (n div 10) @ [digit_char (n mod 10)])"

declare dec.simps [simp del]

definition undec :: "string \<Rightarrow> nat" where
  "undec s = foldl (\<lambda>acc c. acc * 10 + digit_val c) 0 s"

lemma digit_cases: "(d::nat) < 10 \<Longrightarrow> d \<in> {0, 1, 2, 3, 4, 5, 6, 7, 8, 9}"
  by auto

lemma digit_val_char [simp]: "d < 10 \<Longrightarrow> digit_val (digit_char d) = d"
  by (drule digit_cases) (auto simp: digit_char_def digits_def digit_val_def bval_def)

lemma digit_char_val [simp]: "c \<in> set digits \<Longrightarrow> digit_char (digit_val c) = c"
  by (auto simp: digit_char_def digits_def digit_val_def bval_def)

lemma digit_val_less: "c \<in> set digits \<Longrightarrow> digit_val c < 10"
  by (auto simp: digits_def digit_val_def bval_def)

lemma digit_char_in [simp]: "d < 10 \<Longrightarrow> digit_char d \<in> set digits"
  by (drule digit_cases) (auto simp: digit_char_def digits_def)

lemma undec_snoc [simp]: "undec (s @ [c]) = undec s * 10 + digit_val c"
  by (simp add: undec_def)

lemma undec_dec [simp]: "undec (dec n) = n"
proof (induction n rule: dec.induct)
  case (1 n)
  then show ?case
    by (cases "n < 10") (simp_all add: dec.simps [of n] undec_def)
qed

lemma dec_inject [simp]: "dec m = dec n \<longleftrightarrow> m = n"
  by (metis undec_dec)

lemma set_dec: "set (dec n) \<subseteq> set digits"
proof (induction n rule: dec.induct)
  case (1 n)
  then show ?case by (cases "n < 10") (auto simp: dec.simps [of n])
qed

lemma dec_nonempty [simp]: "dec n \<noteq> []"
  by (simp add: dec.simps [of n])

lemma hd_dec: "0 < n \<Longrightarrow> hd (dec n) \<in> set ''123456789''"
proof (induction n rule: dec.induct)
  case (1 n)
  show ?case
  proof (cases "n < 10")
    case True
    then have "n \<in> {0, 1, 2, 3, 4, 5, 6, 7, 8, 9}" by (rule digit_cases)
    with "1.prems" True show ?thesis
      by (auto simp: dec.simps [of n] digit_char_def digits_def)
  next
    case False
    then have "0 < n div 10" by (simp add: div_greater_zero_iff)
    with "1.IH" [OF False] False show ?thesis by (simp add: dec.simps [of n])
  qed
qed

text \<open>Digit strings that do not start with 0 are the decimals of their value.\<close>

lemma dec_undec:
  "s \<noteq> [] \<Longrightarrow> set s \<subseteq> set digits \<Longrightarrow> hd s \<noteq> CHR ''0'' \<Longrightarrow> 0 < undec s \<and> dec (undec s) = s"
proof (induction s rule: rev_induct)
  case Nil
  then show ?case by simp
next
  case (snoc c s)
  have c: "digit_val c < 10" "digit_char (digit_val c) = c"
    using snoc.prems digit_val_less by auto
  show ?case
  proof (cases "s = []")
    case True
    with snoc.prems c have "0 < digit_val c"
      by (auto simp: digits_def digit_val_def bval_def)
    with True c show ?thesis by (simp add: undec_def dec.simps)
  next
    case False
    with snoc have IH: "0 < undec s" "dec (undec s) = s" by auto
    have "dec (undec s * 10 + digit_val c) = dec (undec s) @ [digit_char (digit_val c)]"
      using IH c by (subst dec.simps) simp
    with IH c show ?thesis by simp
  qed
qed

lemma in_version_number: "in_rx version_number s \<longleftrightarrow> (\<exists>n. s = dec n)"
proof
  assume "in_rx version_number s"
  then consider "s = ''0''"
    | c t where "s = c # t" "c \<in> set ''123456789''" "set t \<subseteq> set digits"
    by (auto simp: version_number_def in_rx_Cat in_rx_Star_Cls)
  then show "\<exists>n. s = dec n"
  proof cases
    case 1
    then have "s = dec 0" by (simp add: dec.simps digit_char_def digits_def)
    then show ?thesis ..
  next
    case 2
    then have "set s \<subseteq> set digits" "hd s \<noteq> CHR ''0''" "s \<noteq> []"
      by (auto simp: digits_def)
    then have "s = dec (undec s)" using dec_undec by simp
    then show ?thesis ..
  qed
next
  assume "\<exists>n. s = dec n"
  then obtain n where s: "s = dec n" ..
  show "in_rx version_number s"
  proof (cases "n = 0")
    case True
    with s show ?thesis by (simp add: version_number_def dec.simps digit_char_def digits_def)
  next
    case False
    obtain c t where ct: "dec n = c # t" by (cases "dec n") auto
    have "c \<in> set ''123456789''" "set t \<subseteq> set digits"
      using hd_dec [of n] set_dec [of n] False ct by auto
    then have "in_rx (Cat (Cls ''123456789'') (Star (Cls digits))) ([c] @ t)"
      by (intro in_rx.cat in_rx.cls) (simp_all add: in_rx_Star_Cls)
    with s ct show ?thesis by (simp add: version_number_def)
  qed
qed

section \<open>Versions and their order\<close>

datatype version = Version (major: nat) (minor: nat) (patch: nat)

definition render_version :: "version \<Rightarrow> string" where
  "render_version v = ''v'' @ dec (major v) @ ''.'' @ dec (minor v) @ ''.'' @ dec (patch v)"

definition parse_version :: "string \<Rightarrow> version option" where
  "parse_version s =
     (if match_string stableVersionPattern s
      then (case split_on CHR ''.'' (tl s) of
              [a, b, c] \<Rightarrow> Some (Version (undec a) (undec b) (undec c))
            | _ \<Rightarrow> None)
      else None)"

instantiation version :: linorder
begin

definition less_eq_version :: "version \<Rightarrow> version \<Rightarrow> bool" where
  "less_eq_version v w \<longleftrightarrow>
     major v < major w \<or> major v = major w \<and>
       (minor v < minor w \<or> minor v = minor w \<and> patch v \<le> patch w)"

definition less_version :: "version \<Rightarrow> version \<Rightarrow> bool" where
  "less_version v w \<longleftrightarrow>
     major v < major w \<or> major v = major w \<and>
       (minor v < minor w \<or> minor v = minor w \<and> patch v < patch w)"

instance
  by standard (auto simp: less_eq_version_def less_version_def intro: version.expand)

end

lemma split_on_nosep: "c \<notin> set s \<Longrightarrow> split_on c s = [s]"
  by (induction s) auto

lemma split_on_append: "c \<notin> set s \<Longrightarrow> split_on c (s @ c # t) = s # split_on c t"
  by (induction s) (auto split: list.splits)

lemma dot_notin_dec: "CHR ''.'' \<notin> set (dec n)"
  using set_dec [of n] by (auto simp: digits_def)

lemma split_render:
  "split_on CHR ''.'' (tl (render_version v)) = [dec (major v), dec (minor v), dec (patch v)]"
  by (simp add: render_version_def split_on_append split_on_nosep dot_notin_dec)

lemma in_stableVersionPattern: "in_rx stableVersionPattern s \<longleftrightarrow> (\<exists>v. s = render_version v)"
proof
  assume "in_rx stableVersionPattern s"
  then obtain a b c where "s = ''v'' @ dec a @ ''.'' @ dec b @ ''.'' @ dec c"
    by (auto simp: stableVersionPattern_def in_rx_Cat in_version_number)
  then have "s = render_version (Version a b c)" by (simp add: render_version_def)
  then show "\<exists>v. s = render_version v" ..
next
  assume "\<exists>v. s = render_version v"
  then show "in_rx stableVersionPattern s"
    unfolding stableVersionPattern_def render_version_def
    by (elim exE) (hypsubst, intro in_rx.cat, auto simp: in_version_number)
qed

lemma parse_version_iff: "parse_version s = Some v \<longleftrightarrow> s = render_version v"
proof
  assume p: "parse_version s = Some v"
  then obtain w where "s = render_version w"
    by (auto simp: parse_version_def match_string_iff in_stableVersionPattern split: if_splits)
  with p show "s = render_version v"
    by (simp add: parse_version_def match_string_iff in_stableVersionPattern split_render
        split: if_splits)
next
  assume "s = render_version v"
  then show "parse_version s = Some v"
    by (simp add: parse_version_def match_string_iff in_stableVersionPattern split_render) blast
qed

lemma render_version_inject [simp]: "render_version v = render_version w \<longleftrightarrow> v = w"
  by (metis option.inject parse_version_iff)

section \<open>The semver package as a parameter\<close>

record semver_lib =
  sv_is_valid :: "string \<Rightarrow> bool"
  sv_canonical :: "string \<Rightarrow> string"
  sv_compare :: "string \<Rightarrow> string \<Rightarrow> int"

definition isStableVersion :: "semver_lib \<Rightarrow> string \<Rightarrow> bool" where
  "isStableVersion sv version \<longleftrightarrow>
     match_string stableVersionPattern version \<and> sv_is_valid sv version
     \<and> sv_canonical sv version = version"

text \<open>
  The documented behaviour of the package on exact versions: they are valid, they are their own
  canonical form, and \<^verbatim>\<open>Compare\<close> is negative, zero or positive as the first precedes, equals or
  follows the second.
\<close>

definition semver_spec :: "semver_lib \<Rightarrow> bool" where
  "semver_spec sv \<longleftrightarrow>
     (\<forall>v. sv_is_valid sv (render_version v) \<and> sv_canonical sv (render_version v) = render_version v)
     \<and> (\<forall>v w. sv_compare sv (render_version v) (render_version w) =
           (if v < w then -1 else if v = w then 0 else 1))"

lemma isStableVersion_iff: "semver_spec sv \<Longrightarrow> isStableVersion sv s \<longleftrightarrow> (\<exists>v. s = render_version v)"
  by (auto simp: isStableVersion_def semver_spec_def match_string_iff in_stableVersionPattern)

lemma isStableVersion_render:
  "isStableVersion sv s \<Longrightarrow> \<exists>v. s = render_version v"
  by (simp add: isStableVersion_def match_string_iff in_stableVersionPattern)

lemma sv_compare_less:
  "semver_spec sv \<Longrightarrow> sv_compare sv (render_version v) (render_version w) < 0 \<longleftrightarrow> v < w"
  by (auto simp: semver_spec_def)

text \<open>A concrete library that meets the specification, for the witnesses.\<close>

definition exact_semver :: semver_lib where
  "exact_semver =
     \<lparr>sv_is_valid = (\<lambda>s. parse_version s \<noteq> None),
      sv_canonical = (\<lambda>s. if parse_version s = None then [] else s),
      sv_compare = (\<lambda>s t.
        case (parse_version s, parse_version t) of
          (None, None) \<Rightarrow> 0
        | (None, Some _) \<Rightarrow> -1
        | (Some _, None) \<Rightarrow> 1
        | (Some v, Some w) \<Rightarrow> if v < w then -1 else if v = w then 0 else 1)\<rparr>"

lemma parse_render [simp]: "parse_version (render_version v) = Some v"
  by (simp add: parse_version_iff)

lemma exact_semver_spec: "semver_spec exact_semver"
  by (simp add: semver_spec_def exact_semver_def)

text \<open>C31 With a semver package that behaves as documented, the stable versions are exactly the texts
  vMAJOR.MINOR.PATCH without leading zeros, and each names one triple of numbers.\<close>

theorem stable_version_triple:
  assumes "semver_spec sv"
  shows "isStableVersion sv s \<longleftrightarrow> (\<exists>!v. s = render_version v)"
  using isStableVersion_iff [OF assms] by auto

theorem stable_version_triple_witness:
  "isStableVersion exact_semver ''v1.20.3'' \<and> \<not> isStableVersion exact_semver ''v1.02.3''"
proof -
  have "''v1.20.3'' = render_version (Version 1 20 3)" by code_simp
  moreover have "\<not> (\<exists>!v. ''v1.02.3'' = render_version v)"
  proof
    assume "\<exists>!v. ''v1.02.3'' = render_version v"
    then have "parse_version ''v1.02.3'' \<noteq> None" by (auto simp: parse_version_iff)
    moreover have "parse_version ''v1.02.3'' = None" by code_simp
    ultimately show False by simp
  qed
  ultimately show ?thesis
    using stable_version_triple [OF exact_semver_spec] by auto
qed

end
