(* ===== verification/Types.thy ===== *)
theory Types
  imports Archive Hex Version
begin

text \<open>
  The data the components share: the updater, the plan and the result (selfupdate.go), the release
  metadata (http.go), the provenance record (attestation.go) and the verifier's interface
  (verifier.go), and the libraries the program calls, as one record of parameters.
\<close>

section \<open>Release metadata (http.go, selfupdate.go)\<close>

text \<open>A \<^verbatim>\<open>time.Time\<close> is the number of nanoseconds since the zero time, so \<^verbatim>\<open>IsZero\<close> is being 0.\<close>

record githubAsset =
  ga_name :: string
  ga_browser_download_url :: string
  ga_size :: int
  ga_digest :: string

record githubRelease =
  gr_tag_name :: string
  gr_name :: string
  gr_body :: string
  gr_html_url :: string
  gr_published_at :: int
  gr_draft :: bool
  gr_prerelease :: bool
  gr_assets :: "githubAsset list"

record releaseAsset =
  ra_name :: string
  ra_downloadURL :: string
  ra_digest :: bytes
  ra_size :: int

record releaseInfo =
  rel_Version :: string
  rel_Name :: string
  rel_Notes :: string
  rel_URL :: string
  rel_PublishedAt :: int

definition no_asset :: releaseAsset where
  "no_asset = \<lparr>ra_name = [], ra_downloadURL = [], ra_digest = replicate 32 CHR 0x00, ra_size = 0\<rparr>"

definition no_release :: releaseInfo where
  "no_release =
     \<lparr>rel_Version = [], rel_Name = [], rel_Notes = [], rel_URL = [], rel_PublishedAt = 0\<rparr>"

section \<open>Attestations (attestation.go, verifier.go)\<close>

record provenanceRecord =
  pv_owner :: string
  pv_repository :: string
  pv_workflow :: string
  pv_version :: string
  pv_assetName :: string
  pv_digest :: bytes

record attestationRequest =
  ar_SignerIdentity :: string
  ar_Issuer :: string
  ar_PredicateType :: string
  ar_AssetName :: string
  ar_DigestSHA256 :: bytes
  ar_SourceRepository :: string
  ar_SourceOwner :: string

text \<open>The method of the interface \<^verbatim>\<open>AttestationVerifier\<close>; the context is part of the world.\<close>

type_synonym verifier = "bytes \<Rightarrow> attestationRequest \<Rightarrow> unit io"

section \<open>The updater and the plan (selfupdate.go)\<close>

text \<open>
  \<open>up_addr\<close> is the identity of the \<^verbatim>\<open>*Updater\<close> pointer. \<open>up_httpTimeout\<close> is the client's \<^verbatim>\<open>Timeout\<close>
  and \<open>up_downloadIdleTimeout\<close> the stall bound, in milliseconds, \<open>up_downloadProgress\<close> says whether a
  callback is set. \<open>up_beforeCommit\<close> is the tests' hook; \<^verbatim>\<open>New\<close> leaves it nil.
\<close>

record updater =
  up_addr :: nat
  up_owner :: string
  up_repository :: string
  up_command :: string
  up_currentVersion :: string
  up_currentStable :: bool
  up_allowDowngrade :: bool
  up_httpTimeout :: nat
  up_githubToken :: string
  up_attestationWorkflow :: string
  up_attestationVerifier :: "verifier option"
  up_binding :: bytes
  up_apiBaseURL :: string
  up_attestationBundleHost :: string
  up_allowHTTP :: bool
  up_downloadIdleTimeout :: nat
  up_downloadProgress :: bool
  up_goos :: string
  up_goarch :: string
  up_beforeCommit :: "(world \<Rightarrow> world) option"

record plan =
  pl_updater :: nat
  pl_binding :: bytes
  pl_currentVersion :: string
  pl_availableVersion :: string
  pl_comparable :: bool
  pl_updateAvailable :: bool
  pl_targeted :: bool
  pl_release :: releaseInfo
  pl_assetName :: string
  pl_assetURL :: string
  pl_assetSize :: int
  pl_archiveDigest :: bytes
  pl_provenance :: "provenanceRecord option"
  pl_executable :: path
  pl_executableHash :: bytes
  pl_goos :: string
  pl_goarch :: string

record result =
  res_Committed :: bool
  res_CleanupPending :: bool
  res_PreviousVersion :: string
  res_Version :: string
  res_Executable :: "path option"

definition no_result :: result where
  "no_result =
     \<lparr>res_Committed = False, res_CleanupPending = False, res_PreviousVersion = [],
      res_Version = [], res_Executable = None\<rparr>"

section \<open>The libraries\<close>

text \<open>
  The decoders of \<^verbatim>\<open>encoding/json\<close> at the types the program decodes, as the program uses them: the
  outcome of the first \<^verbatim>\<open>Decode\<close>, and with a value the error of a second \<^verbatim>\<open>Decode\<close>. \<^verbatim>\<open>snappy\<close> is a
  third-party package.
\<close>

record json_lib =
  json_release :: "bytes \<Rightarrow> gerror + githubRelease \<times> gerror option"
  json_attestations :: "bytes \<Rightarrow> gerror + string list \<times> gerror option"

record snappy_lib =
  snappy_DecodedLen :: "bytes \<Rightarrow> gerror + int"
  snappy_Decode :: "bytes \<Rightarrow> gerror + bytes"

record libs =
  lb_url :: url_lib
  lb_semver :: semver_lib
  lb_json :: json_lib
  lb_sha256 :: "bytes \<Rightarrow> bytes"
  lb_archive :: archive_lib
  lb_snappy :: snappy_lib

section \<open>Concrete libraries, for the witnesses\<close>

text \<open>
  A metadata document is decoded to one fixed release of the tool, an attestation page to one
  bundle; the digest keeps the first bytes.
\<close>

definition sample_hash :: "bytes \<Rightarrow> bytes" where
  "sample_hash bs = take 32 (bs @ replicate 32 CHR 0x00)"

definition sample_release :: githubRelease where
  "sample_release =
     \<lparr>gr_tag_name = ''v1.2.0'', gr_name = ''1.2'', gr_body = [],
      gr_html_url = ''https://github.com/acme/tool/releases/v1.2.0'', gr_published_at = 1,
      gr_draft = False, gr_prerelease = False,
      gr_assets =
        [\<lparr>ga_name = ''tool_linux_amd64.tar.gz'', ga_browser_download_url = ''https://github.com/acme/tool/a'',
          ga_size = 3, ga_digest = ''sha256:'' @ hex_encode (sample_hash ''new'')\<rparr>]\<rparr>"

definition sample_json :: json_lib where
  "sample_json =
     \<lparr>json_release = (\<lambda>bs. if bs = ''release'' then Inr (sample_release, Some ErrEOF) else Inl ErrEOF),
      json_attestations = (\<lambda>bs.
        if bs = ''page'' then Inr ([''https://tmaproduction.blob.core.windows.net/b''], Some ErrEOF)
        else Inl ErrEOF)\<rparr>"

definition sample_snappy :: snappy_lib where
  "sample_snappy = \<lparr>snappy_DecodedLen = (\<lambda>bs. Inr (int (length bs))), snappy_Decode = Inr\<rparr>"

definition sample_libs :: libs where
  "sample_libs =
     \<lparr>lb_url = https_url, lb_semver = exact_semver, lb_json = sample_json, lb_sha256 = sample_hash,
      lb_archive = sample_archive, lb_snappy = sample_snappy\<rparr>"

text \<open>An updater for the tool at version v1.0.0 on Linux.\<close>

definition sample_updater :: updater where
  "sample_updater =
     \<lparr>up_addr = 1, up_owner = ''acme'', up_repository = ''tool'', up_command = ''tool'',
      up_currentVersion = ''v1.0.0'', up_currentStable = True, up_allowDowngrade = False,
      up_httpTimeout = 60000, up_githubToken = ''secret'', up_attestationWorkflow = [],
      up_attestationVerifier = None, up_binding = replicate 32 CHR ''b'',
      up_apiBaseURL = ''https://api.github.com'', up_attestationBundleHost = ''tmaproduction.blob.core.windows.net'',
      up_allowHTTP = False, up_downloadIdleTimeout = 30000, up_downloadProgress = False,
      up_goos = ''linux'', up_goarch = ''amd64'', up_beforeCommit = None\<rparr>"

end
