(* ===== verification/Http.thy ===== *)
theory Http
  imports Types
begin

text \<open>
  The HTTP side (http.go): the URL checks, the client with its redirect policies and time limits,
  the bounded reads of a body, release metadata and the choice of the asset, and the download that
  streams an asset into a file while hashing it. The servers' answers are the world's \<open>replies\<close>;
  every request the client sends is recorded as an effect with its URL and whether it carries the
  token.
\<close>

section \<open>URL checks\<close>

definition validateURL :: "url_lib \<Rightarrow> updater \<Rightarrow> string \<Rightarrow> bool \<Rightarrow> gerror option" where
  "validateURL ul u rawURL api =
     (if length rawURL = 0 \<or> length rawURL > 4096 \<or> trim_space rawURL \<noteq> rawURL
         \<or> contains_any rawURL [CHR 0x00, CHR 0x0D, CHR 0x0A]
      then Some (ErrorString ''URL is empty, too long, or contains invalid whitespace'')
      else
        (case url_parse ul rawURL of
           None \<Rightarrow> Some (ErrorString ''URL must be absolute and have no credentials or fragment'')
         | Some parsed \<Rightarrow>
             if \<not> is_abs parsed \<or> u_host parsed = [] \<or> u_user parsed \<or> u_fragment parsed \<noteq> []
             then Some (ErrorString ''URL must be absolute and have no credentials or fragment'')
             else if u_scheme parsed \<noteq> ''https'' \<and> (\<not> up_allowHTTP u \<or> u_scheme parsed \<noteq> ''http'')
             then Some (ErrorString ''URL must use HTTPS'')
             else if \<not> up_allowHTTP u \<and> api \<and> \<not> equal_fold (hostname parsed) ''api.github.com''
             then Some (ErrorString ''API URL must use api.github.com'')
             else if \<not> up_allowHTTP u \<and> \<not> api \<and> \<not> equal_fold (hostname parsed) ''github.com''
             then Some (ErrorString ''release URLs must use github.com'')
             else if port_of parsed \<noteq> [] \<and> undec (port_of parsed) \<ge> 2 ^ 16
             then Some (ErrorString ''URL has an invalid port'')
             else None))"

definition rune_suffix :: "nat list \<Rightarrow> nat list \<Rightarrow> bool" where
  "rune_suffix r s \<longleftrightarrow> take (length r) (rev s) = rev r"

definition assetRedirectAllowed :: "updater \<Rightarrow> url \<Rightarrow> gerror option" where
  "assetRedirectAllowed u target =
     (if u_user target \<or> u_fragment target \<noteq> []
      then Some (ErrorString ''selfupdate: unsafe release asset redirect rejected'')
      else if up_allowHTTP u
      then if u_scheme target \<noteq> ''https'' \<and> u_scheme target \<noteq> ''http''
           then Some (ErrorString ''selfupdate: unsafe release asset redirect rejected'') else None
      else if u_scheme target \<noteq> ''https'' \<or> port_of target \<noteq> []
      then Some (ErrorString ''selfupdate: unsafe release asset redirect rejected'')
      else
        (let host = lower_runes (hostname target)
         in if host \<noteq> runes ''github.com'' \<and> host \<noteq> runes ''githubusercontent.com''
               \<and> \<not> rune_suffix (runes ''.githubusercontent.com'') host
            then Some (ErrorString ''selfupdate: release asset redirect to an untrusted host rejected'')
            else None))"

section \<open>The client\<close>

definition newRequest :: "url_lib \<Rightarrow> string \<Rightarrow> url io" where
  "newRequest ul rawURL =
     (case url_parse ul rawURL of
        None \<Rightarrow> fail (SysError ''parse URL'') | Some target \<Rightarrow> ret target)"

text \<open>One request and its answer. A context that is done is noticed before the request is sent.\<close>

definition send :: "bool \<Rightarrow> url \<Rightarrow> reply io" where
  "send auth target = syscall (\<lambda>w.
     case ctx_err w of
       Some e \<Rightarrow> (Inl e, w)
     | None \<Rightarrow>
         (let w1 = emit (ERequest target auth) w
          in case replies w of
               [] \<Rightarrow> (Inl (SysError ''connection refused''), w1)
             | r # rs \<Rightarrow> (Inr r, w1\<lparr>replies := rs\<rparr>)))"

text \<open>Milliseconds against an optional limit: the client's \<^verbatim>\<open>Timeout\<close> or the idle timer.\<close>

definition over :: "nat option \<Rightarrow> nat \<Rightarrow> bool" where
  "over budget elapsed \<longleftrightarrow> (case budget of None \<Rightarrow> False | Some b \<Rightarrow> elapsed > b)"

lemma run_acts_replies [simp]: "replies (run_acts xs w) = replies w"
proof -
  have "replies (run_act a w) = replies w" for a w
    by (cases a) (auto simp: add_node_def set_node_def del_name_def move_name_def split: option.split)
  then show ?thesis
    by (induction xs arbitrary: w) (simp_all add: run_acts_def)
qed

lemma next_step_replies: "next_step w = (s, w') \<Longrightarrow> replies w' = replies w"
  by (auto simp: next_step_def split: list.splits)

lemma send_replies: "send auth target w = (Inr r, w1) \<Longrightarrow> replies w = r # replies w1"
  by (auto simp: send_def syscall_def Let_def dest!: next_step_replies
      split: prod.splits option.splits list.splits)

lemma send_shorter: "(Inr r, w1) = send auth target w \<Longrightarrow> length (replies w1) < length (replies w)"
  using send_replies [of auth target w r w1] by simp

text \<open>
  \<^verbatim>\<open>client.Do\<close> with the redirect policy \<open>check\<close>, which sees the number of requests made so far and
  the next URL. \<open>late\<close> is the error of a client that has run out of time.
\<close>

function client_hops ::
  "(nat \<Rightarrow> url \<Rightarrow> gerror option) \<Rightarrow> bool \<Rightarrow> nat option \<Rightarrow> gerror \<Rightarrow> nat \<Rightarrow> nat \<Rightarrow> url \<Rightarrow>
   (response \<times> nat) io" where
  "client_hops check auth budget late elapsed via target w =
     (case send auth target w of
        (Inl e, w1) \<Rightarrow> (Inl e, w1)
      | (Inr (TransportError e), w1) \<Rightarrow> (Inl e, w1)
      | (Inr (Redirect next d), w1) \<Rightarrow>
          if over budget (elapsed + d) then (Inl late, w1)
          else (case check (Suc via) next of
                  Some e \<Rightarrow> (Inl e, w1)
                | None \<Rightarrow> client_hops check auth budget late (elapsed + d) (Suc via) next w1)
      | (Inr (Response r), w1) \<Rightarrow>
          if over budget (elapsed + r_delay r) then (Inl late, w1)
          else (Inr (r, elapsed + r_delay r), w1))"
  by pat_completeness auto
termination
  by (relation "measure (\<lambda>(check, auth, budget, late, elapsed, via, target, w). length (replies w))")
    (auto intro: send_shorter)

declare client_hops.simps [simp del]

definition client_do ::
  "(nat \<Rightarrow> url \<Rightarrow> gerror option) \<Rightarrow> bool \<Rightarrow> nat option \<Rightarrow> gerror \<Rightarrow> url \<Rightarrow>
   (response \<times> nat) io" where
  "client_do check auth budget late target = client_hops check auth budget late 0 0 target"

definition client_timeout :: "updater \<Rightarrow> nat option" where
  "client_timeout u = (if up_httpTimeout u = 0 then None else Some (up_httpTimeout u))"

text \<open>
  A body read under a time limit that counts from the start of the request: the client's timeout, or
  an idle timer that is not reset.
\<close>

fun timed_stream :: "nat option \<Rightarrow> gerror \<Rightarrow> nat \<Rightarrow> stream \<Rightarrow> stream" where
  "timed_stream budget late elapsed [] = []"
| "timed_stream budget late elapsed (r # s) =
     (let elapsed = elapsed + rv_gap r + rv_delay r
      in if over budget elapsed then [r\<lparr>rv_data := [], rv_err := Some late\<rparr>]
         else r # timed_stream budget late elapsed s)"

text \<open>A read of the network: the environment moves, and a context that is done ends the read.\<close>

definition net_read :: "unit io" where
  "net_read = syscall ctx_check"

text \<open>\<^verbatim>\<open>io.ReadAll(io.LimitReader(body, limit+1))\<close>\<close>

definition read_all :: "int \<Rightarrow> stream \<Rightarrow> bytes io" where
  "read_all limit body = copy_limited False net_read no_hook no_write (nat (limit + 1)) body []"

text \<open>
  The text of an error response: at most 64 KiB of the body without surrounding white space, or
  the status line.
\<close>

definition error_text :: "response \<Rightarrow> bytes \<Rightarrow> string" where
  "error_text r message =
     (let text = trim_space (if int (length message) > maxErrorBytes
                             then take (nat maxErrorBytes) message else message)
      in if text = [] then r_status_text r else text)"

definition bad_status :: "response \<Rightarrow> bool" where
  "bad_status r \<longleftrightarrow> r_status r < 200 \<or> r_status r \<ge> 300"

definition doWithClient ::
  "url_lib \<Rightarrow> updater \<Rightarrow> (nat \<Rightarrow> url \<Rightarrow> gerror option) \<Rightarrow> bool \<Rightarrow> url \<Rightarrow> int \<Rightarrow> string \<Rightarrow>
   (stream \<Rightarrow> stream) option \<Rightarrow> bytes io" where
  "doWithClient ul u check auth target limit description wrap =
     bindE (wrapE ''selfupdate: fetch %s: %w'' [AStr description]
              (client_do check auth (client_timeout u) CtxDeadlineExceeded target))
       (\<lambda>(r, elapsed).
          let body = timed_stream (client_timeout u) CtxDeadlineExceeded elapsed (r_body r)
          in if bad_status r
             then tryE (read_all maxErrorBytes body)
               (\<lambda>e. fail (Errorf ''selfupdate: fetch %s: HTTP %d (read error: %v)''
                  [AStr description, AInt (r_status r), AErr e]))
               (\<lambda>message. fail (HttpStatusError description (r_status r) (error_text r message)))
             else if r_content_length r > limit
             then fail (Errorf ''selfupdate: %s Content-Length %d exceeds the %d-byte limit''
               [AStr description, AInt (r_content_length r), AInt limit])
             else bindE (wrapE ''selfupdate: read %s: %w'' [AStr description]
                 (read_all limit (case wrap of None \<Rightarrow> body | Some f \<Rightarrow> f body)))
               (\<lambda>out. if int (length out) > limit
                  then fail (Errorf ''selfupdate: %s exceeds the %d-byte limit''
                    [AStr description, AInt limit])
                  else ret out))"

section \<open>Release metadata\<close>

definition ensureJSONEnd :: "gerror option \<Rightarrow> gerror option" where
  "ensureJSONEnd second =
     (case second of
        None \<Rightarrow> Some (ErrorString ''selfupdate: release metadata contains more than one JSON value'')
      | Some e \<Rightarrow>
          if errors_is e ErrEOF then None
          else Some (Wrapf ''selfupdate: decode trailing release metadata: %w'' [] e))"

text \<open>The loop over the assets; \<open>selected\<close> starts as the zero value.\<close>

fun select_asset ::
  "url_lib \<Rightarrow> updater \<Rightarrow> string \<Rightarrow> githubAsset list \<Rightarrow> releaseAsset \<Rightarrow> gerror + releaseAsset" where
  "select_asset ul u expectedAsset [] selected = Inr selected"
| "select_asset ul u expectedAsset (a # as) selected =
     (if ga_name a \<noteq> expectedAsset then select_asset ul u expectedAsset as selected
      else if ra_name selected \<noteq> []
      then Inl (Errorf ''selfupdate: release has duplicate asset %q'' [AStr (ga_name a)])
      else if ga_size a \<le> 0
      then Inl (Errorf ''selfupdate: asset %q has invalid size %d'' [AStr (ga_name a), AInt (ga_size a)])
      else if ga_size a > maxArchiveBytes
      then Inl (Errorf ''selfupdate: asset %q exceeds the %d-byte limit''
             [AStr (ga_name a), AInt maxArchiveBytes])
      else (case validateURL ul u (ga_browser_download_url a) False of
              Some e \<Rightarrow> Inl (Wrapf ''selfupdate: invalid URL for asset %q: %w'' [AStr (ga_name a)] e)
            | None \<Rightarrow>
                (case parseAssetDigest (ga_digest a) of
                   Inl e \<Rightarrow> Inl (Wrapf ''selfupdate: invalid digest for asset %q: %w'' [AStr (ga_name a)] e)
                 | Inr digest \<Rightarrow>
                     select_asset ul u expectedAsset as
                       \<lparr>ra_name = ga_name a, ra_downloadURL = ga_browser_download_url a,
                        ra_digest = digest, ra_size = ga_size a\<rparr>)))"

text \<open>The checks on the decoded metadata, and the result.\<close>

definition check_release ::
  "libs \<Rightarrow> updater \<Rightarrow> string \<Rightarrow> githubRelease \<Rightarrow> gerror + releaseInfo \<times> releaseAsset" where
  "check_release lb u expectedAsset m =
     (if gr_draft m then Inl (ErrorString ''selfupdate: release metadata is flagged as draft'')
      else if gr_prerelease m then Inl (ErrorString ''selfupdate: release metadata is flagged as prerelease'')
      else if \<not> isStableVersion (lb_semver lb) (gr_tag_name m)
      then Inl (Errorf ''selfupdate: latest release tag %q is not exact vMAJOR.MINOR.PATCH''
             [AStr (gr_tag_name m)])
      else if gr_published_at m = 0
      then Inl (ErrorString ''selfupdate: release metadata has no publication time'')
      else (case validateURL (lb_url lb) u (gr_html_url m) False of
              Some e \<Rightarrow> Inl (Wrapf ''selfupdate: invalid release page URL: %w'' [] e)
            | None \<Rightarrow>
                (case select_asset (lb_url lb) u expectedAsset (gr_assets m) no_asset of
                   Inl e \<Rightarrow> Inl e
                 | Inr selected \<Rightarrow>
                     if ra_name selected = []
                     then Inl (Errorf ''selfupdate: release %s has no exact asset %q''
                            [AStr (gr_tag_name m), AStr expectedAsset])
                     else Inr (\<lparr>rel_Version = gr_tag_name m, rel_Name = gr_name m,
                                rel_Notes = gr_body m, rel_URL = gr_html_url m,
                                rel_PublishedAt = gr_published_at m\<rparr>, selected))))"

text \<open>The API's base URL, checked, as both API calls use it.\<close>

definition api_base :: "url_lib \<Rightarrow> updater \<Rightarrow> gerror + url" where
  "api_base ul u =
     (case url_parse ul (up_apiBaseURL u) of
        None \<Rightarrow> Inl (ErrorString ''selfupdate: invalid GitHub API base URL'')
      | Some base \<Rightarrow>
          if \<not> is_abs base \<or> u_host base = [] \<or> u_rawquery base \<noteq> [] \<or> u_fragment base \<noteq> []
             \<or> u_user base
          then Inl (ErrorString ''selfupdate: invalid GitHub API base URL'')
          else (case validateURL ul u (url_string ul base) True of
                  Some e \<Rightarrow> Inl e | None \<Rightarrow> Inr base))"

definition api_path :: "updater \<Rightarrow> url \<Rightarrow> string \<Rightarrow> string" where
  "api_path u base pathSuffix =
     trim_suffix (u_path base) ''/'' @ ''/repos/'' @ path_escape (up_owner u) @ ''/''
     @ path_escape (up_repository u) @ ''/'' @ pathSuffix"

text \<open>No redirect of an API request is followed.\<close>

definition api_redirect :: "nat \<Rightarrow> url \<Rightarrow> gerror option" where
  "api_redirect via target = Some (ErrorString ''selfupdate: GitHub API redirect rejected'')"

definition has_token :: "updater \<Rightarrow> bool" where
  "has_token u \<longleftrightarrow> up_githubToken u \<noteq> []"

definition fetchRelease ::
  "libs \<Rightarrow> updater \<Rightarrow> string \<Rightarrow> string \<Rightarrow> (releaseInfo \<times> releaseAsset) io" where
  "fetchRelease lb u pathSuffix expectedAsset =
     bindE (liftE (api_base (lb_url lb) u))
       (\<lambda>base.
          bindE (wrapE ''selfupdate: create release request: %w'' []
              (newRequest (lb_url lb)
                (url_string (lb_url lb) (base\<lparr>u_path := api_path u base pathSuffix\<rparr>))))
            (\<lambda>target.
               bindE (doWithClient (lb_url lb) u api_redirect (has_token u) target maxMetadataBytes
                   ''release metadata'' None)
                 (\<lambda>body.
                    bindE (wrapE ''selfupdate: decode release metadata: %w'' []
                        (liftE (json_release (lb_json lb) body)))
                      (\<lambda>(metadata, second).
                         case ensureJSONEnd second of
                           Some e \<Rightarrow> fail e
                         | None \<Rightarrow> liftE (check_release lb u expectedAsset metadata)))))"

definition fetchLatestRelease ::
  "libs \<Rightarrow> updater \<Rightarrow> string \<Rightarrow> (releaseInfo \<times> releaseAsset) io" where
  "fetchLatestRelease lb u expectedAsset = fetchRelease lb u ''releases/latest'' expectedAsset"

definition fetchReleaseByTag ::
  "libs \<Rightarrow> updater \<Rightarrow> string \<Rightarrow> string \<Rightarrow> (releaseInfo \<times> releaseAsset) io" where
  "fetchReleaseByTag lb u version expectedAsset =
     bindE
       (handleE (fetchRelease lb u (''releases/tags/'' @ path_escape version) expectedAsset)
         (\<lambda>e. if as_http_status e = Some 404
               then fail (Wrapf ''selfupdate: release %s not found: %w'' [AStr version] e)
               else fail e))
       (\<lambda>(release, asset).
          if rel_Version release \<noteq> version
          then fail (Errorf ''selfupdate: release tag %q does not match requested version %q''
                 [AStr (rel_Version release), AStr version])
          else ret (release, asset))"

section \<open>The download\<close>

definition asset_redirect :: "updater \<Rightarrow> nat \<Rightarrow> url \<Rightarrow> gerror option" where
  "asset_redirect u via target =
     (if via \<ge> 10 then Some (ErrorString ''selfupdate: too many release asset redirects'')
      else assetRedirectAllowed u target)"

text \<open>
  The bytes are written by \<open>wr\<close> and hashed as they are written. The idle timer is created just before
  the request, so it bounds \<^verbatim>\<open>client.Do\<close> as a whole; the reads of a body that is kept reset it.
\<close>

definition downloadToFile ::
  "libs \<Rightarrow> updater \<Rightarrow> string \<Rightarrow> int \<Rightarrow> string \<Rightarrow> int \<Rightarrow> (bytes \<Rightarrow> unit io) \<Rightarrow> bytes io" where
  "downloadToFile lb u rawURL limit description total_size wr =
     (case validateURL (lb_url lb) u rawURL False of
        Some e \<Rightarrow> fail (Wrapf ''selfupdate: invalid %s URL: %w'' [AStr description] e)
      | None \<Rightarrow>
          bindE (wrapE ''selfupdate: create %s request: %w'' [AStr description]
              (newRequest (lb_url lb) rawURL))
            (\<lambda>target.
               bindE (wrapE ''selfupdate: fetch %s: %w'' [AStr description]
                   (client_do (asset_redirect u) False (Some (up_downloadIdleTimeout u))
                      CtxCanceled target))
                 (\<lambda>(r, elapsed).
                    if bad_status r
                    then tryE (read_all maxErrorBytes
                        (timed_stream (Some (up_downloadIdleTimeout u)) CtxCanceled elapsed (r_body r)))
                      (\<lambda>e. fail (Errorf ''selfupdate: fetch %s: HTTP %d (read error: %v)''
                         [AStr description, AInt (r_status r), AErr e]))
                      (\<lambda>message. fail (Errorf ''selfupdate: fetch %s: HTTP %d: %s''
                         [AStr description, AInt (r_status r), AStr (error_text r message)]))
                    else if r_content_length r > limit
                    then fail (Errorf ''selfupdate: %s Content-Length %d exceeds the %d-byte limit''
                      [AStr description, AInt (r_content_length r), AInt limit])
                    else bindE (wrapE ''selfupdate: read %s: %w'' [AStr description]
                        (copy_limited False net_read
                          (if up_downloadProgress u \<and> total_size > 0 then countingReader total_size
                           else no_hook)
                          wr (nat (limit + 1))
                          (idleTimeoutReader (up_downloadIdleTimeout u) (up_downloadIdleTimeout u) elapsed
                            (r_body r)) []))
                      (\<lambda>out. if int (length out) > limit
                         then fail (Errorf ''selfupdate: %s exceeds the %d-byte limit''
                           [AStr description, AInt limit])
                         else ret (lb_sha256 lb out)))))"

section \<open>Facts about the URL checks\<close>

lemma validateURL_None_iff:
  "validateURL ul u s api = None \<longleftrightarrow>
     s \<noteq> [] \<and> length s \<le> 4096 \<and> trim_space s = s
     \<and> set s \<inter> {CHR 0x00, CHR 0x0D, CHR 0x0A} = {}
     \<and> (\<exists>p. url_parse ul s = Some p \<and> is_abs p \<and> u_host p \<noteq> [] \<and> \<not> u_user p \<and> u_fragment p = []
          \<and> (u_scheme p = ''https'' \<or> up_allowHTTP u \<and> u_scheme p = ''http'')
          \<and> (up_allowHTTP u \<or> equal_fold (hostname p) (if api then ''api.github.com'' else ''github.com''))
          \<and> undec (port_of p) < 2 ^ 16)"
proof (cases "url_parse ul s")
  case None
  then show ?thesis by (simp add: validateURL_def)
next
  case (Some p)
  have "port_of p = [] \<Longrightarrow> undec (port_of p) < 2 ^ 16" by (simp add: undec_def)
  with Some show ?thesis
    by (auto simp: validateURL_def contains_any_iff not_le not_less)
qed

text \<open>The redirect policy on a host name of ASCII characters.\<close>

lemma rune_suffix_map: "rune_suffix (map bval r) (map bval s) \<longleftrightarrow> has_suffix s r"
  by (simp add: rune_suffix_def has_suffix_def has_prefix_def rev_map take_map map_bval_inject)

lemma assetRedirectAllowed_ascii:
  assumes "\<not> up_allowHTTP u" "is_ascii (hostname t)"
  shows "assetRedirectAllowed u t = None \<longleftrightarrow>
    \<not> u_user t \<and> u_fragment t = [] \<and> u_scheme t = ''https'' \<and> port_of t = []
    \<and> (let h = map lower_char (hostname t)
       in h = ''github.com'' \<or> h = ''githubusercontent.com'' \<or> has_suffix h ''.githubusercontent.com'')"
proof -
  have ascii: "runes s = map bval s" if "is_ascii s" for s
    using that by (intro runes_ascii) (simp add: is_ascii_def list_all_iff)
  have hosts: "runes ''github.com'' = map bval ''github.com''"
    "runes ''githubusercontent.com'' = map bval ''githubusercontent.com''"
    "runes ''.githubusercontent.com'' = map bval ''.githubusercontent.com''"
    by (rule ascii, simp add: is_ascii_def bval_def)+
  show ?thesis
    using assms(1)
    unfolding assetRedirectAllowed_def Let_def hosts lower_runes_ascii [OF assms(2)] rune_suffix_map
      map_bval_inject
    by auto
qed

section \<open>What the client does\<close>

lemma client_hops_inv:
  assumes send: "\<And>t w r w'. P w \<Longrightarrow> send auth t w = (r, w') \<Longrightarrow> P w'"
  shows "P w \<Longrightarrow> client_hops check auth budget late elapsed via target w = (r, w') \<Longrightarrow> P w'"
proof (induction "length (replies w)" arbitrary: w elapsed via target rule: less_induct)
  case less
  obtain x w1 where s: "send auth target w = (x, w1)" by (cases "send auth target w")
  have w1: "P w1" by (rule send [OF less.prems(1) s])
  show ?case
  proof (cases x)
    case (Inl e)
    with less.prems(2) s w1 show ?thesis by (simp add: client_hops.simps [of check])
  next
    case (Inr rep)
    have IH: "P w'" if "client_hops check auth budget late el v t w1 = (r, w')" for el v t
      by (rule less.hyps [OF _ w1 that]) (use send_replies s Inr in simp)
    show ?thesis
      using less.prems(2) s Inr w1 IH
      by (cases rep) (auto simp: client_hops.simps [of check] split: if_splits option.splits)
  qed
qed

lemma next_step_effects: "next_step w = (s, w') \<Longrightarrow> effects w' = effects w"
proof -
  have "effects (run_acts xs w) = effects w" for xs w
    by (induction xs arbitrary: w) (simp_all add: run_acts_def)
  then show "next_step w = (s, w') \<Longrightarrow> effects w' = effects w"
    by (auto simp: next_step_def split: list.splits)
qed

lemma send_effects:
  "send auth t w = (r, w') \<Longrightarrow>
     effects w' = effects w \<and> (\<exists>e. r = Inl e) \<or> effects w' = ERequest t auth # effects w"
  by (auto simp: send_def syscall_def Let_def dest!: next_step_effects
      split: prod.splits option.splits list.splits)

text \<open>The requests of one call: each but the first was allowed by the redirect policy.\<close>

fun hop_chain :: "(nat \<Rightarrow> url \<Rightarrow> gerror option) \<Rightarrow> nat \<Rightarrow> url list \<Rightarrow> bool" where
  "hop_chain check via (t # t' # ts) \<longleftrightarrow> check (Suc via) t' = None \<and> hop_chain check (Suc via) (t' # ts)"
| "hop_chain check via ts \<longleftrightarrow> True"

lemma client_hops_effects:
  "client_hops check auth budget late elapsed via target w = (r, w') \<Longrightarrow>
     \<exists>ts. effects w' = map (\<lambda>t. ERequest t auth) (rev ts) @ effects w
        \<and> (ts = [] \<or> hd ts = target) \<and> hop_chain check via ts"
proof (induction "length (replies w)" arbitrary: w elapsed via target rule: less_induct)
  case less
  obtain x w1 where s: "send auth target w = (x, w1)" by (cases "send auth target w")
  have none: ?case if "effects w' = effects w"
    by (rule exI [of _ "[]"]) (simp add: that)
  have one: ?case if "effects w' = ERequest target auth # effects w"
    by (rule exI [of _ "[target]"]) (simp add: that)
  note eff = send_effects [OF s]
  show ?case
  proof (cases x)
    case (Inl e)
    with less.prems s eff none one show ?thesis by (auto simp: client_hops.simps [of check])
  next
    case (Inr rep)
    then have e1: "effects w1 = ERequest target auth # effects w" using eff by auto
    have IH: ?thesis if "client_hops check auth budget late el (Suc via) t w1 = (r, w')"
      "check (Suc via) t = None" for el t
    proof -
      have "length (replies w1) < length (replies w)" using send_replies s Inr by simp
      from less.hyps [OF this that(1)] obtain ts where ts:
        "effects w' = map (\<lambda>t. ERequest t auth) (rev ts) @ effects w1"
        "ts = [] \<or> hd ts = t" "hop_chain check (Suc via) ts" by blast
      show ?thesis
        by (rule exI [of _ "target # ts"]) (use ts e1 that(2) in \<open>cases ts; auto\<close>)
    qed
    show ?thesis
      using less.prems s Inr e1 one IH
      by (cases rep) (auto simp: client_hops.simps [of check] split: if_splits option.splits)
  qed
qed

section \<open>The asset that is selected\<close>

definition asset_ok :: "url_lib \<Rightarrow> updater \<Rightarrow> githubAsset \<Rightarrow> releaseAsset \<Rightarrow> bool" where
  "asset_ok ul u a s \<longleftrightarrow>
     ra_name s = ga_name a \<and> ra_downloadURL s = ga_browser_download_url a \<and> ra_size s = ga_size a
     \<and> 0 < ga_size a \<and> ga_size a \<le> maxArchiveBytes
     \<and> validateURL ul u (ga_browser_download_url a) False = None
     \<and> parseAssetDigest (ga_digest a) = Inr (ra_digest s)"

lemma select_asset_iff:
  assumes "e \<noteq> []"
  shows "select_asset ul u e as sel = Inr s \<longleftrightarrow>
    (filter (\<lambda>a. ga_name a = e) as = [] \<and> s = sel)
    \<or> ra_name sel = [] \<and> (\<exists>a. filter (\<lambda>a. ga_name a = e) as = [a] \<and> asset_ok ul u a s)"
proof (induction as arbitrary: sel)
  case Nil
  show ?case by auto
next
  case (Cons a as)
  show ?case
  proof (cases "ga_name a = e")
    case False
    with Cons show ?thesis by simp
  next
    case True
    show ?thesis
    proof (cases "ra_name sel = [] \<and> (\<exists>d. asset_ok ul u a
        \<lparr>ra_name = ga_name a, ra_downloadURL = ga_browser_download_url a, ra_digest = d, ra_size = ga_size a\<rparr>)")
      case False
      then have "select_asset ul u e (a # as) sel \<noteq> Inr s"
        using True by (auto simp: asset_ok_def not_le not_less split: option.splits sum.splits)
      moreover have "\<not> asset_ok ul u a s" if "ra_name sel = []"
        using False that by (auto simp: asset_ok_def)
      ultimately show ?thesis using True by auto
    next
      case ok: True
      then obtain d where d: "asset_ok ul u a \<lparr>ra_name = ga_name a,
          ra_downloadURL = ga_browser_download_url a, ra_digest = d, ra_size = ga_size a\<rparr>" by blast
      let ?s = "\<lparr>ra_name = ga_name a, ra_downloadURL = ga_browser_download_url a, ra_digest = d,
        ra_size = ga_size a\<rparr>"
      have step: "select_asset ul u e (a # as) sel = select_asset ul u e as ?s"
        using True ok d by (auto simp: asset_ok_def)
      have "asset_ok ul u a s \<longleftrightarrow> s = ?s"
        using d by (auto simp: asset_ok_def)
      with True ok assms show ?thesis
        unfolding step Cons by (auto simp del: select_asset.simps)
    qed
  qed
qed

lemma asset_ok_unique: "asset_ok ul u a s \<Longrightarrow> asset_ok ul u a t \<Longrightarrow> s = t"
  by (cases s, cases t) (simp add: asset_ok_def)

definition release_of :: "githubRelease \<Rightarrow> releaseInfo" where
  "release_of m =
     \<lparr>rel_Version = gr_tag_name m, rel_Name = gr_name m, rel_Notes = gr_body m,
      rel_URL = gr_html_url m, rel_PublishedAt = gr_published_at m\<rparr>"

lemma check_release_iff:
  assumes "e \<noteq> []"
  shows "check_release lb u e m = Inr (rel, s) \<longleftrightarrow>
    \<not> gr_draft m \<and> \<not> gr_prerelease m \<and> isStableVersion (lb_semver lb) (gr_tag_name m)
    \<and> gr_published_at m \<noteq> 0 \<and> validateURL (lb_url lb) u (gr_html_url m) False = None
    \<and> rel = release_of m
    \<and> (\<exists>a. filter (\<lambda>a. ga_name a = e) (gr_assets m) = [a] \<and> asset_ok (lb_url lb) u a s)"
proof -
  have zero: "ra_name no_asset = []" by (simp add: no_asset_def)
  have named: "ra_name s = e"
    if "filter (\<lambda>a. ga_name a = e) (gr_assets m) = [a]" "asset_ok (lb_url lb) u a s" for a
  proof -
    from that(1) have "ga_name a = e" by (metis (mono_tags, lifting) filter_eq_ConsD list.set_intros(1) mem_Collect_eq set_filter)
    with that(2) show ?thesis by (simp add: asset_ok_def)
  qed
  show ?thesis
  proof (cases "select_asset (lb_url lb) u e (gr_assets m) no_asset")
    case (Inl err)
    then have "\<not> (\<exists>a. filter (\<lambda>a. ga_name a = e) (gr_assets m) = [a] \<and> asset_ok (lb_url lb) u a s)"
      using select_asset_iff [OF assms, of "lb_url lb" u "gr_assets m" no_asset s] zero by auto
    with Inl show ?thesis by (auto simp: check_release_def split: option.splits)
  next
    case (Inr t)
    then have t: "filter (\<lambda>a. ga_name a = e) (gr_assets m) = [] \<and> t = no_asset
      \<or> (\<exists>a. filter (\<lambda>a. ga_name a = e) (gr_assets m) = [a] \<and> asset_ok (lb_url lb) u a t)"
      using select_asset_iff [OF assms, of "lb_url lb" u "gr_assets m" no_asset t] zero by auto
    have "(ra_name t \<noteq> [] \<and> t = s) \<longleftrightarrow>
        (\<exists>a. filter (\<lambda>a. ga_name a = e) (gr_assets m) = [a] \<and> asset_ok (lb_url lb) u a s)"
    proof
      assume "ra_name t \<noteq> [] \<and> t = s"
      with t zero show "\<exists>a. filter (\<lambda>a. ga_name a = e) (gr_assets m) = [a] \<and> asset_ok (lb_url lb) u a s"
        by blast
    next
      assume "\<exists>a. filter (\<lambda>a. ga_name a = e) (gr_assets m) = [a] \<and> asset_ok (lb_url lb) u a s"
      then obtain a where a: "filter (\<lambda>a. ga_name a = e) (gr_assets m) = [a]" "asset_ok (lb_url lb) u a s"
        by blast
      with t have "asset_ok (lb_url lb) u a t" by simp
      then have "t = s" using a(2) by (rule asset_ok_unique)
      with named [OF a] assms show "ra_name t \<noteq> [] \<and> t = s" by simp
    qed
    with Inr show ?thesis
      by (auto simp: check_release_def release_of_def split: option.splits)
  qed
qed

section \<open>The download, for every environment that leaves the file alone\<close>

lemma same_replies [simp]: "same_on S w (w\<lparr>replies := x\<rparr>)"
  by (simp add: same_on_def)

lemma stable_replies [simp]: "stable_env S (w\<lparr>replies := x\<rparr>) = stable_env S w"
  by (simp add: stable_env_def env_avoids_def)

lemma send_frame:
  assumes A: "local_to S A" and blind: "effect_blind A"
  shows "preserves (\<lambda>w. stable_env S w \<and> A w) (send auth t)"
  unfolding send_def
proof (rule hoare_syscall_local [OF A])
  have "A (emit (ERequest t auth) w)" "A ((emit (ERequest t auth) w)\<lparr>replies := rs\<rparr>)" if "A w" for w rs
    using effect_blindD [OF blind, of "ERequest t auth" w] that local_toD [OF A same_replies] by auto
  then show "preserves (\<lambda>w. stable_env S w \<and> A w)
     (\<lambda>w. case ctx_err w of
        None \<Rightarrow> let w1 = emit (ERequest t auth) w
          in case replies w of [] \<Rightarrow> (Inl (SysError ''connection refused''), w1)
             | r # rs \<Rightarrow> (Inr r, w1\<lparr>replies := rs\<rparr>)
      | Some e \<Rightarrow> (Inl e, w))"
    by (auto simp: hoare_def Let_def split: option.split list.split)
qed auto

lemma client_do_frame:
  assumes "local_to S A" "effect_blind A"
  shows "preserves (\<lambda>w. stable_env S w \<and> A w) (client_do check auth budget late t)"
proof -
  have send: "stable_env S w' \<and> A w'" if "stable_env S w \<and> A w" "send auth t w = (r, w')" for w w' t r
  proof (cases r)
    case (Inl e)
    from hoareD_err [OF send_frame [OF assms] that(1)] that(2) Inl show ?thesis by blast
  next
    case (Inr a)
    from hoareD_ok [OF send_frame [OF assms] that(1)] that(2) Inr show ?thesis by blast
  qed
  have "stable_env S w' \<and> A w'"
    if "stable_env S w \<and> A w" "client_do check auth budget late t w = (r, w')" for w r w'
    by (rule client_hops_inv [where P = "\<lambda>w. stable_env S w \<and> A w",
          OF send that(1) that(2) [unfolded client_do_def]])
  then show ?thesis by (intro hoareI) blast+
qed

lemma net_read_frame: "local_to S A \<Longrightarrow> preserves (\<lambda>w. stable_env S w \<and> A w) net_read"
  unfolding net_read_def
  by (rule hoare_pure_call) (auto simp: ctx_check_def split: option.split)

lemma read_all_frame:
  assumes "local_to S A"
  shows "preserves (\<lambda>w. stable_env S w \<and> A w) (read_all n s)"
  unfolding read_all_def
  by (rule hoare_weaken [OF copy_limited_rule [where I = "\<lambda>_ w. stable_env S w \<and> A w"
        and J = "\<lambda>_ _ w. stable_env S w \<and> A w"]])
    (auto simp: no_hook_def no_write_def intro: net_read_frame [OF assms] hoare_ret)

definition downloading ::
  "(path \<Rightarrow> bool) \<Rightarrow> (world \<Rightarrow> bool) \<Rightarrow> os_file \<Rightarrow> node \<Rightarrow> bytes \<Rightarrow> world \<Rightarrow> bool" where
  "downloading S A f nd acc w \<longleftrightarrow>
     stable_env S w \<and> A w \<and> file_at f (nd\<lparr>n_content := acc\<rparr>) w"

lemma downloading_eq:
  "downloading S A f nd acc = (\<lambda>w. stable_env S w \<and> (A w \<and> file_at f (nd\<lparr>n_content := acc\<rparr>) w))"
  by (simp add: fun_eq_iff downloading_def)

lemma download_copy_rule:
  assumes S: "S (f_path f)" and A: "local_to (except S (f_path f)) A" and blind: "effect_blind A"
    and hook: "hook = no_hook \<or> hook = countingReader n"
  shows "hoare (downloading S A f nd [])
    (copy_limited False net_read hook (os_write f) k s [])
    (\<lambda>out w. downloading S A f nd out w \<and> out = take k (stream_data s))
    (\<lambda>_ w. \<exists>c. downloading S A f nd c w)"
proof -
  let ?I = "downloading S A f nd"
  have loc: "local_to S (\<lambda>w. A w \<and> file_at f (nd\<lparr>n_content := acc\<rparr>) w)" for acc
    by (rule local_to_conj [OF local_except [OF A]]) (rule local_file_at, rule S)
  have bl: "effect_blind (\<lambda>w. A w \<and> file_at f (nd\<lparr>n_content := acc\<rparr>) w)" for acc
    using blind by auto
  have read: "hoare (?I acc) net_read (\<lambda>_. ?I acc) (\<lambda>_ w. \<exists>c. ?I c w)" for acc
    by (rule hoare_weaken [OF net_read_frame [OF loc [of acc]]]) (auto simp: downloading_def)
  have count: "?I acc (emit (EProgress a b) w)" if "?I acc w" for acc a b w
  proof -
    have "A w \<and> file_at f (nd\<lparr>n_content := acc\<rparr>) w" using that by (simp add: downloading_def)
    from effect_blindD [OF bl not_rename(4) this, of a b] that show ?thesis
      unfolding downloading_def by simp
  qed
  have hooked: "hoare (?I acc) (hook acc bs) (\<lambda>_. ?I acc) (\<lambda>_ w. \<exists>c. ?I c w)" for acc bs
    using hook
  proof
    assume "hook = no_hook"
    then show ?thesis by (auto simp: no_hook_def intro: hoare_ret)
  next
    assume "hook = countingReader n"
    then show ?thesis
      using count [of acc] by (cases "bs = []") (auto simp: countingReader_def hoare_def ret_def)
  qed
  have wrote: "hoare (?I acc) (os_write f bs) (\<lambda>_. ?I (acc @ bs)) (\<lambda>_ w. \<exists>c. ?I c w)" for acc bs
    by (rule hoare_weaken [OF os_write_rule [OF S A, of "nd\<lparr>n_content := acc\<rparr>" bs]])
      (auto simp: downloading_def)
  show ?thesis
    by (rule hoare_weaken [OF copy_limited_rule [where I = ?I and J = "\<lambda>acc _. ?I acc",
          OF read hooked _ wrote]])
      auto
qed

lemma download_rule:
  assumes S: "S (f_path f)" and A: "local_to (except S (f_path f)) A" and blind: "effect_blind A"
    and "0 \<le> limit"
  shows "hoare (downloading S A f nd [])
    (downloadToFile lb u rawURL limit desc n (os_write f))
    (\<lambda>d w. \<exists>c. d = lb_sha256 lb c \<and> int (length c) \<le> limit \<and> downloading S A f nd c w)
    (\<lambda>_ w. \<exists>c. downloading S A f nd c w)"
    (is "hoare ?P _ ?Q ?E")
proof -
  let ?B = "\<lambda>w. A w \<and> file_at f (nd\<lparr>n_content := []\<rparr>) w"
  have loc: "local_to S ?B"
    by (rule local_to_conj [OF local_except [OF A]]) (rule local_file_at, rule S)
  have bl: "effect_blind ?B" using blind by auto
  have E: "?E e w" if "?P w" for e w using that by blast
  have failing: "hoare ?P (fail e) Q ?E" for e and Q :: "'x \<Rightarrow> world \<Rightarrow> bool"
    by (rule hoare_fail) (rule E)
  have request: "hoare ?P (wrapE g args (newRequest (lb_url lb) rawURL)) (\<lambda>_. ?P) ?E" for g args
    unfolding newRequest_def
    by (rule hoare_wrap_any) (auto intro!: hoare_ret hoare_fail intro: E split: option.split)
  have get: "hoare ?P (wrapE g args (client_do check auth budget late t)) (\<lambda>_. ?P) ?E"
    for g args check auth budget late t
    by (rule hoare_wrap_any, rule hoare_weaken [OF client_do_frame [OF loc bl]])
      (auto simp: downloading_def)
  have drain: "hoare ?P (read_all k s) (\<lambda>_. ?P) (\<lambda>_. ?P)" for k s
    using read_all_frame [OF loc, of k s] by (simp only: downloading_eq)
  let ?hook = "if up_downloadProgress u \<and> n > 0 then countingReader n else no_hook"
  have hook: "?hook = no_hook \<or> ?hook = countingReader n" by simp
  note copy = hoare_wrap_any [OF download_copy_rule [OF S A blind hook]]
  have tail: "hoare (\<lambda>w. downloading S A f nd out w \<and> out = take (nat (limit + 1)) d)
      (if int (length out) > limit then fail e else ret (lb_sha256 lb out)) ?Q ?E" for out d e
    by (auto intro!: hoare_if hoare_ret hoare_fail)
  show ?thesis
  proof (cases "validateURL (lb_url lb) u rawURL False")
    case (Some e)
    then show ?thesis by (simp add: downloadToFile_def failing)
  next
    case None
    show ?thesis
      unfolding downloadToFile_def None option.case
      by (rule hoare_bind [OF request], rule hoare_bind [OF get], simp only: split_beta,
          rule hoare_if, rule hoare_try [OF drain], rule failing, rule failing,
          rule hoare_if, rule failing, rule hoare_bind [OF copy tail])
  qed
qed

section \<open>Which requests are sent\<close>

text \<open>All requests so far satisfy \<open>R\<close>, which sees the URL and whether the token goes with it.\<close>

definition requests_in :: "(url \<Rightarrow> bool \<Rightarrow> bool) \<Rightarrow> world \<Rightarrow> bool" where
  "requests_in R w \<longleftrightarrow> (\<forall>t b. ERequest t b \<in> set (effects w) \<longrightarrow> R t b)"

lemma requests_effects: "effects w' = effects w \<Longrightarrow> requests_in R w' = requests_in R w"
  by (simp add: requests_in_def)

lemma requests_emit [simp]:
  "requests_in R (emit e w) \<longleftrightarrow> (case e of ERequest t b \<Rightarrow> R t b | _ \<Rightarrow> True) \<and> requests_in R w"
  by (auto simp: requests_in_def split: effect.splits)

lemma requests_syscall:
  assumes "hoare (requests_in R) m Q (\<lambda>_. requests_in R)"
  shows "hoare (requests_in R) (syscall m) Q (\<lambda>_. requests_in R)"
  by (rule hoare_syscall [OF _ _ assms])
    (use requests_effects [OF next_step_effects] in blast)+

lemma requests_quiet:
  assumes "\<And>w. effects (snd (m w)) = effects w"
  shows "preserves (requests_in R) (syscall m)"
proof (rule requests_syscall, rule hoareI)
  show "requests_in R w'" if "requests_in R w" "m w = (Inr a, w')" for w a w'
    using that assms [of w] by (simp add: requests_in_def)
  show "requests_in R w'" if "requests_in R w" "m w = (Inl e, w')" for w e w'
    using that assms [of w] by (simp add: requests_in_def)
qed

lemma net_read_requests: "preserves (requests_in R) net_read"
  unfolding net_read_def by (rule requests_quiet) (simp add: ctx_check_def split: option.split)

lemma read_all_requests: "preserves (requests_in R) (read_all n s)"
  unfolding read_all_def
  by (rule hoare_weaken [OF copy_limited_rule [where I = "\<lambda>_. requests_in R" and J = "\<lambda>_ _. requests_in R"]])
    (auto simp: no_hook_def no_write_def intro: net_read_requests hoare_ret)

lemma hop_chain_set:
  "hop_chain check via ts \<Longrightarrow> t \<in> set (tl ts) \<Longrightarrow> \<exists>n. check n t = None"
  by (induction check via ts rule: hop_chain.induct) auto

lemma client_do_requests:
  assumes "R target auth" "\<And>n t. check n t = None \<Longrightarrow> R t auth"
  shows "preserves (requests_in R) (client_do check auth budget late target)"
proof -
  have "requests_in R w'"
    if w: "requests_in R w" "client_do check auth budget late target w = (r, w')" for w r w'
  proof -
    from client_hops_effects [OF w(2) [unfolded client_do_def]] obtain ts where
      ts: "effects w' = map (\<lambda>t. ERequest t auth) (rev ts) @ effects w"
        "ts = [] \<or> hd ts = target" "hop_chain check 0 ts" by blast
    have "R t auth" if "t \<in> set ts" for t
    proof (cases ts)
      case (Cons a as)
      show ?thesis
      proof (cases "t \<in> set as")
        case True
        with hop_chain_set [OF ts(3), of t] Cons assms(2) show ?thesis by auto
      qed (use that ts(2) Cons assms(1) in auto)
    qed (use that in simp)
    with w(1) ts(1) show ?thesis by (auto simp: requests_in_def)
  qed
  then show ?thesis by (intro hoareI) blast+
qed

lemma api_do_requests:
  "R target auth \<Longrightarrow> preserves (requests_in R) (client_do api_redirect auth budget late target)"
  by (rule client_do_requests) (simp_all add: api_redirect_def)

lemma doWithClient_requests:
  assumes "R target auth"
  shows "preserves (requests_in R) (doWithClient ul u api_redirect auth target limit desc wrap)"
proof -
  have get: "preserves (requests_in R)
      (wrapE g args (client_do api_redirect auth budget late target))" for g args budget late
    by (rule hoare_wrap_any [OF api_do_requests [of R, OF assms]])
  have failing: "hoare (requests_in R) (fail e) Q (\<lambda>_. requests_in R)"
    for e and Q :: "'x \<Rightarrow> world \<Rightarrow> bool"
    by (rule hoare_fail)
  show ?thesis
    unfolding doWithClient_def
    by (rule hoare_bind [OF get], simp only: split_beta Let_def, rule hoare_if,
        rule hoare_try [OF read_all_requests], rule failing, rule failing, rule hoare_if, rule failing,
        rule hoare_bind [OF hoare_wrap_any [OF read_all_requests]], rule hoare_if, rule failing,
        rule hoare_ret)
qed

text \<open>
  What the program relies on of \<^verbatim>\<open>net/url\<close> here. A URL with a host that comes from text, by \<^verbatim>\<open>Parse\<close> or
  by \<^verbatim>\<open>ResolveReference\<close> between two parsed URLs, has a scheme in lower case and no opaque part; when it
  is printed and parsed again, also with another path or query, its scheme and its host come back.
\<close>

definition from_text :: "url_lib \<Rightarrow> url \<Rightarrow> bool" where
  "from_text ul v \<longleftrightarrow>
     (\<exists>s. url_parse ul s = Some v)
     \<or> (\<exists>s s' base ref. url_parse ul s = Some base \<and> url_parse ul s' = Some ref
          \<and> v = url_resolve ul base ref)"

definition url_law :: "url_lib \<Rightarrow> bool" where
  "url_law ul \<longleftrightarrow>
     (\<forall>v p q t. from_text ul v \<longrightarrow> u_host v \<noteq> [] \<longrightarrow>
        url_parse ul (url_string ul (v\<lparr>u_path := p, u_rawquery := q\<rparr>)) = Some t \<longrightarrow>
        u_scheme t = u_scheme v \<and> u_host t = u_host v)"

lemma url_lawD:
  "url_law ul \<Longrightarrow> from_text ul v \<Longrightarrow> u_host v \<noteq> [] \<Longrightarrow>
   url_parse ul (url_string ul (v\<lparr>u_path := p, u_rawquery := q\<rparr>)) = Some t \<Longrightarrow>
   u_scheme t = u_scheme v \<and> u_host t = u_host v"
  unfolding url_law_def by blast

lemma url_law_same:
  "url_law ul \<Longrightarrow> from_text ul v \<Longrightarrow> u_host v \<noteq> [] \<Longrightarrow> url_parse ul (url_string ul v) = Some t \<Longrightarrow>
   u_scheme t = u_scheme v \<and> u_host t = u_host v"
  using url_lawD [where ul = ul and v = v and p = "u_path v" and q = "u_rawquery v" and t = t] by simp

lemma api_base_from_text:
  "api_base ul u = Inr base \<Longrightarrow> from_text ul base \<and> u_host base \<noteq> []"
  by (auto simp: api_base_def from_text_def split: option.splits if_splits)

lemma https_parse:
  assumes "CHR ''/'' \<notin> set h" "p = [] \<and> q = [] \<or> has_prefix p ''/''"
  shows "takeWhile (\<lambda>x. x \<noteq> CHR ''/'') (h @ p @ q) = h"
proof -
  have all: "\<forall>x \<in> set h. x \<noteq> CHR ''/''" using assms(1) by auto
  then have h: "takeWhile (\<lambda>x. x \<noteq> CHR ''/'') h = h" by (simp add: takeWhile_eq_all_conv)
  from assms(2) show ?thesis
  proof
    assume "has_prefix p ''/''"
    then obtain r where "p = CHR ''/'' # r" by (auto simp: has_prefix_iff)
    with all show ?thesis by (simp add: takeWhile_append2 [of h])
  qed (simp add: h)
qed

lemma https_reparse:
  assumes t: "url_parse https_url (url_string https_url v) = Some t"
  shows "u_scheme t = u_scheme v \<and> u_host t = u_host v"
proof -
  let ?q = "if u_rawquery v = [] then [] else CHR ''?'' # u_rawquery v"
  have c: "u_scheme v = ''https''" "CHR ''/'' \<notin> set (u_host v)"
    "u_path v = [] \<and> ?q = [] \<or> has_prefix (u_path v) ''/''"
  proof -
    have "url_parse https_url [] = None" by (simp add: https_url_def has_prefix_def)
    with t have "url_string https_url v \<noteq> []" by auto
    then show "u_scheme v = ''https''" "CHR ''/'' \<notin> set (u_host v)"
      "u_path v = [] \<and> ?q = [] \<or> has_prefix (u_path v) ''/''"
      by (auto simp: https_url_def split: if_splits)
  qed
  then have "url_string https_url v = ''https://'' @ (u_host v @ u_path v @ ?q)"
    by (auto simp: https_url_def split: if_splits)
  with t have "u_scheme t = ''https'' \<and> u_host t = takeWhile (\<lambda>x. x \<noteq> CHR ''/'') (u_host v @ u_path v @ ?q)"
    by (simp add: https_url_def has_prefix_def cut_at_def sample_url_def) auto
  with https_parse [OF c(2,3)] c(1) show "u_scheme t = u_scheme v \<and> u_host t = u_host v" by simp
qed

lemma https_url_law: "url_law https_url"
  unfolding url_law_def
proof (intro allI impI)
  fix v p q t
  assume "url_parse https_url (url_string https_url (v\<lparr>u_path := p, u_rawquery := q\<rparr>)) = Some t"
  from https_reparse [OF this] show "u_scheme t = u_scheme v \<and> u_host t = u_host v" by simp
qed

definition api_host :: "url \<Rightarrow> bool" where
  "api_host t \<longleftrightarrow> u_scheme t = ''https'' \<and> equal_fold (hostname t) ''api.github.com''"

lemma api_base_host:
  assumes "url_law ul" "\<not> up_allowHTTP u" "api_base ul u = Inr base"
  shows "api_host base"
proof -
  from assms(3) have "validateURL ul u (url_string ul base) True = None"
    by (auto simp: api_base_def split: option.splits if_splits)
  then obtain p where "url_parse ul (url_string ul base) = Some p" "u_scheme p = ''https''"
    "equal_fold (hostname p) ''api.github.com''"
    using assms(2) by (auto simp: validateURL_None_iff)
  with url_law_same [OF assms(1), of base p] api_base_from_text [OF assms(3)]
  show ?thesis by (simp add: api_host_def hostname_def)
qed

text \<open>A URL of the API: the scheme of the checked base URL, and its host and port up to case.\<close>

definition same_api :: "url_lib \<Rightarrow> updater \<Rightarrow> url \<Rightarrow> bool" where
  "same_api ul u t \<longleftrightarrow>
     (case api_base ul u of
        Inl e \<Rightarrow> False
      | Inr base \<Rightarrow> u_scheme t = u_scheme base \<and> equal_fold (u_host t) (u_host base))"

lemma same_api_reparse:
  assumes "url_law ul" "api_base ul u = Inr base"
    and "url_parse ul (url_string ul (base\<lparr>u_path := p, u_rawquery := q\<rparr>)) = Some t"
  shows "same_api ul u t"
  using url_lawD [OF assms(1) _ _ assms(3)] api_base_from_text [OF assms(2)] assms(2)
  by (simp add: same_api_def)

lemma fetchRelease_requests:
  assumes law: "url_law (lb_url lb)"
    and R: "\<And>t. same_api (lb_url lb) u t \<Longrightarrow> R t (has_token u)"
  shows "preserves (requests_in R) (fetchRelease lb u sfx asset)"
proof -
  have base: "hoare (requests_in R) (liftE (api_base (lb_url lb) u))
    (\<lambda>base w. requests_in R w \<and> api_base (lb_url lb) u = Inr base) (\<lambda>_. requests_in R)"
    by (rule hoare_lift) auto
  have request: "hoare (requests_in R)
      (wrapE g args (newRequest (lb_url lb) (url_string (lb_url lb) (base\<lparr>u_path := p\<rparr>))))
      (\<lambda>t w. requests_in R w \<and> R t (has_token u)) (\<lambda>_. requests_in R)"
    if "api_base (lb_url lb) u = Inr base" for base p g args
  proof -
    have "same_api (lb_url lb) u t"
      if "url_parse (lb_url lb) (url_string (lb_url lb) (base\<lparr>u_path := p\<rparr>)) = Some t" for t
      by (rule same_api_reparse [OF law \<open>api_base (lb_url lb) u = Inr base\<close>, where p = p and q = "u_rawquery base"])
        (use that in simp)
    then show ?thesis
      using R by (intro hoare_wrap_any)
        (auto simp: newRequest_def intro!: hoare_ret hoare_fail split: option.split)
  qed
  have tail: "hoare (requests_in R)
     (case x of (metadata, second) \<Rightarrow>
        (case ensureJSONEnd second of
          Some e \<Rightarrow> fail e | None \<Rightarrow> liftE (check_release lb u asset metadata)))
     (\<lambda>_. requests_in R) (\<lambda>_. requests_in R)" for x
    by (auto intro!: hoare_fail hoare_lift split: prod.split option.split)
  show ?thesis
    unfolding fetchRelease_def
    by (rule hoare_bind [OF base], rule hoare_fact, rule hoare_bind [OF request], assumption,
        rule hoare_fact, rule hoare_bind [OF doWithClient_requests [of R]], assumption,
        rule hoare_bind [OF hoare_wrap_any [OF hoare_lift [where Q = "\<lambda>_. requests_in R"]] tail])
qed

section \<open>Properties of the HTTP side\<close>

text \<open>The requests sent so far, latest first.\<close>

definition is_request :: "effect \<Rightarrow> bool" where
  "is_request e \<longleftrightarrow> (case e of ERequest t b \<Rightarrow> True | _ \<Rightarrow> False)"

definition requests :: "world \<Rightarrow> effect list" where
  "requests w = filter is_request (effects w)"

lemma requests_of_emit [simp]: "requests (emit e w) = (if is_request e then e # requests w else requests w)"
  by (simp add: requests_def)

lemma requests_cong: "effects w' = effects w \<Longrightarrow> requests w' = requests w"
  by (simp add: requests_def)

lemma is_request_simps [simp]: "is_request (ERequest t b)" "\<not> is_request (EProgress a c)"
  by (simp_all add: is_request_def)

text \<open>A system call whose body makes no request.\<close>

lemma quiet_requests:
  assumes "\<And>w. requests (snd (m w)) = requests w"
  shows "preserves (\<lambda>w. P (requests w)) (syscall m)"
proof (rule hoare_syscall)
  show "P (requests w')" if "P (requests w)" "next_step w = (s, w')" for w s w'
    using that requests_cong [OF next_step_effects [OF that(2)]] by simp
  show "preserves (\<lambda>w. P (requests w)) m"
    by (intro hoareI) (use assms in \<open>metis snd_conv\<close>)+
qed

lemma net_read_quiet: "preserves (\<lambda>w. P (requests w)) net_read"
  unfolding net_read_def by (rule quiet_requests) (simp add: ctx_check_def split: option.split)

lemma read_all_quiet: "preserves (\<lambda>w. P (requests w)) (read_all n s)"
  unfolding read_all_def
  by (rule hoare_weaken [OF copy_limited_rule [where I = "\<lambda>_ w. P (requests w)" and J = "\<lambda>_ _ w. P (requests w)"]])
    (auto simp: no_hook_def no_write_def intro: net_read_quiet hoare_ret)

lemma write_quiet: "preserves (\<lambda>w. P (requests w)) (os_write f bs)"
proof -
  have "requests (snd (os_write f bs w)) = requests w" for w
  proof -
    obtain s w' where n: "next_step w = (s, w')" by (cases "next_step w")
    from requests_cong [OF next_step_effects [OF n]] n show ?thesis
      by (simp add: os_write_def requests_def split: option.split)
  qed
  then show ?thesis by (intro hoareI) (metis snd_conv)+
qed

lemma client_do_chain:
  "hoare (\<lambda>w. requests w = rs0) (client_do check auth budget late target)
     (\<lambda>_ w. \<exists>ts. requests w = map (\<lambda>t. ERequest t auth) (rev ts) @ rs0
        \<and> (ts = [] \<or> hd ts = target) \<and> hop_chain check 0 ts)
     (\<lambda>_ w. \<exists>ts. requests w = map (\<lambda>t. ERequest t auth) (rev ts) @ rs0
        \<and> (ts = [] \<or> hd ts = target) \<and> hop_chain check 0 ts)"
proof -
  have all: "filter is_request (map (\<lambda>t. ERequest t auth) ts) = map (\<lambda>t. ERequest t auth) ts" for ts
    by (induction ts) auto
  have "\<exists>ts. requests w' = map (\<lambda>t. ERequest t auth) (rev ts) @ rs0
        \<and> (ts = [] \<or> hd ts = target) \<and> hop_chain check 0 ts"
    if "requests w = rs0" "client_do check auth budget late target w = (r, w')" for w r w'
    using client_hops_effects [OF that(2) [unfolded client_do_def]] that(1) all
    by (auto simp: requests_def simp del: filter_map)
  then show ?thesis by (intro hoareI) blast+
qed

lemma asset_hops_few: "hop_chain (asset_redirect u) via ts \<Longrightarrow> via < 10 \<Longrightarrow> length ts + via \<le> 10"
proof (induction "asset_redirect u" via ts rule: hop_chain.induct)
  case (1 via t t' ts)
  then have "Suc via < 10" by (auto simp: asset_redirect_def split: if_splits)
  with 1 show ?case by simp
qed auto

text \<open>C22 A download sends at most ten requests, all without the token: the first to the validated asset URL and each
  further one to a redirect target that the host policy allows.\<close>

theorem download_requests:
  assumes "downloadToFile lb u rawURL limit d n (os_write f) w = (r, w')"
  shows "\<exists>ts. requests w' = map (\<lambda>t. ERequest t False) (rev ts) @ requests w \<and> length ts \<le> 10
    \<and> (ts \<noteq> [] \<longrightarrow> validateURL (lb_url lb) u rawURL False = None \<and> url_parse (lb_url lb) rawURL = Some (hd ts))
    \<and> (\<forall>t \<in> set (tl ts). assetRedirectAllowed u t = None)"
proof -
  define K where "K rs \<longleftrightarrow> (\<exists>ts. rs = map (\<lambda>t. ERequest t False) (rev ts) @ requests w \<and> length ts \<le> 10
    \<and> (ts \<noteq> [] \<longrightarrow> validateURL (lb_url lb) u rawURL False = None \<and> url_parse (lb_url lb) rawURL = Some (hd ts))
    \<and> (\<forall>t \<in> set (tl ts). assetRedirectAllowed u t = None))" for rs
  let ?P = "\<lambda>w. K (requests w)"
  have stop: "?P w0" if "requests w0 = requests w" for w0
    unfolding K_def by (rule exI [of _ "[]"]) (simp add: that)
  have failing: "hoare ?P (fail e) Q (\<lambda>_. ?P)" for e and Q :: "'x \<Rightarrow> world \<Rightarrow> bool"
    by (rule hoare_fail)
  have request: "hoare (\<lambda>w0. requests w0 = requests w) (wrapE g a (newRequest (lb_url lb) rawURL))
      (\<lambda>t w0. requests w0 = requests w \<and> url_parse (lb_url lb) rawURL = Some t) (\<lambda>_. ?P)" for g a
    using stop by (intro hoare_wrap_any)
      (auto simp: newRequest_def intro!: hoare_ret hoare_fail split: option.split)
  have get: "hoare (\<lambda>w0. requests w0 = requests w) (wrapE g a (client_do (asset_redirect u) False b l t))
      (\<lambda>_. ?P) (\<lambda>_. ?P)"
    if t: "url_parse (lb_url lb) rawURL = Some t" "validateURL (lb_url lb) u rawURL False = None" for g a b l t
  proof (rule hoare_wrap_any)
    have chain: "?P w0" if "\<exists>ts. requests w0 = map (\<lambda>t. ERequest t False) (rev ts) @ requests w
        \<and> (ts = [] \<or> hd ts = t) \<and> hop_chain (asset_redirect u) 0 ts" for w0
    proof -
    from that obtain ts where ts: "requests w0 = map (\<lambda>t. ERequest t False) (rev ts) @ requests w"
      "ts = [] \<or> hd ts = t" "hop_chain (asset_redirect u) 0 ts" by blast
    have "assetRedirectAllowed u t' = None" if "t' \<in> set (tl ts)" for t'
      using hop_chain_set [OF ts(3) that] by (auto simp: asset_redirect_def split: if_splits)
    with ts t asset_hops_few [OF ts(3)] show "?P w0"
      unfolding K_def by (intro exI [of _ ts]) auto
    qed
    show "hoare (\<lambda>w0. requests w0 = requests w) (client_do (asset_redirect u) False b l t) (\<lambda>_. ?P) (\<lambda>_. ?P)"
      by (rule hoare_weaken [OF client_do_chain [of "requests w"]]) (assumption | erule chain)+
  qed
  have wrote: "preserves ?P (os_write f bs)" for bs by (rule write_quiet)
  have hook: "preserves ?P ((if b then countingReader n else no_hook) acc bs)" for b acc bs
    by (auto simp: hoare_def countingReader_def no_hook_def ret_def)
  have copy: "preserves ?P (wrapE g a (copy_limited False net_read (if b then countingReader n else no_hook)
      (os_write f) k s acc))" for g a b k s acc
    by (rule hoare_wrap_any, rule hoare_weaken [OF copy_limited_rule [where I = "\<lambda>_. ?P" and J = "\<lambda>_ _. ?P",
        OF net_read_quiet hook _ wrote]]) auto
  have "hoare (\<lambda>w0. requests w0 = requests w) (downloadToFile lb u rawURL limit d n (os_write f)) (\<lambda>_. ?P) (\<lambda>_. ?P)"
  proof (cases "validateURL (lb_url lb) u rawURL False")
    case (Some e)
    then show ?thesis
      unfolding downloadToFile_def Some option.case by (intro hoare_fail) (rule stop)
  next
    case None
    show ?thesis
      unfolding downloadToFile_def None option.case
      by (rule hoare_bind [OF request], rule hoare_fact, rule hoare_bind [OF get [OF _ None]], assumption,
          simp only: split_beta, rule hoare_if, rule hoare_try [OF read_all_quiet], rule failing, rule failing,
          rule hoare_if, rule failing, rule hoare_bind [OF copy], rule hoare_if, rule failing, rule hoare_ret)
  qed
  from hoareD_ok [OF this refl] hoareD_err [OF this refl] assms
  have "K (requests w')" by (cases r) blast+
  then show ?thesis by (simp only: K_def)
qed

theorem download_requests_witness:
  "\<exists>r w' ts. downloadToFile sample_libs sample_updater ''https://github.com/acme/tool/a'' 9 [] 3
       (os_write (File (Path [] []) 0)) (empty_world\<lparr>replies := [answer ''new'']\<rparr>) = (Inr r, w')
     \<and> requests w' = map (\<lambda>t. ERequest t False) (rev ts) \<and> length ts \<le> 10"
proof -
  have "case downloadToFile sample_libs sample_updater ''https://github.com/acme/tool/a'' 9 [] 3
       (os_write (File (Path [] []) 0)) (empty_world\<lparr>replies := [answer ''new'']\<rparr>) of
      (Inr r, w') \<Rightarrow> True | (Inl e, w') \<Rightarrow> False"
    by code_simp
  then obtain r w' where run: "downloadToFile sample_libs sample_updater ''https://github.com/acme/tool/a'' 9 [] 3
       (os_write (File (Path [] []) 0)) (empty_world\<lparr>replies := [answer ''new'']\<rparr>) = (Inr r, w')"
    by (auto split: prod.splits sum.splits)
  have "requests (empty_world\<lparr>replies := [answer ''new'']\<rparr>) = []" by (simp add: requests_def empty_world_def)
  with download_requests [OF run] run show ?thesis by auto
qed

text \<open>C23 The redirect policy for assets, for host names in ASCII: https without port, user information or fragment,
  to github.com, githubusercontent.com or a subdomain of the latter, in any letter case.\<close>

theorem redirect_policy:
  assumes "\<not> up_allowHTTP u" and "is_ascii (hostname t)"
  shows "assetRedirectAllowed u t = None \<longleftrightarrow>
    \<not> u_user t \<and> u_fragment t = [] \<and> u_scheme t = ''https'' \<and> port_of t = []
    \<and> (let h = map lower_char (hostname t)
       in h = ''github.com'' \<or> h = ''githubusercontent.com'' \<or> has_suffix h ''.githubusercontent.com'')"
  using assms by (rule assetRedirectAllowed_ascii)

theorem redirect_policy_witness:
  "assetRedirectAllowed sample_updater (sample_url ''Objects.GitHubUserContent.com'' ''/x'' []) = None"
proof -
  have "\<not> up_allowHTTP sample_updater"
    "is_ascii (hostname (sample_url ''Objects.GitHubUserContent.com'' ''/x'' []))"
    by code_simp+
  from redirect_policy [OF this] show ?thesis
    by (rule iffD2) code_simp
qed

lemma runes_dotted_I: "runes (CHR 0xC4 # CHR 0xB0 # s) = 0x130 # runes s"
  by (subst runes.simps) (simp add: bval_def rune_width_def in_range_def second_range_def)

text \<open>C38 Outside ASCII the policy is wider than github.com: a host name with the letter U+0130 in the place of an \<open>i\<close> is
  lower-cased to github.com by \<^verbatim>\<open>strings.ToLower\<close> and accepted.\<close>

theorem redirect_policy_not_ascii:
  assumes "\<not> up_allowHTTP u"
  shows "\<exists>t. assetRedirectAllowed u t = None \<and> \<not> is_ascii (hostname t)
    \<and> hostname t = ''g'' @ [CHR 0xC4, CHR 0xB0] @ ''thub.com''"
proof -
  let ?h = "''g'' @ [CHR 0xC4, CHR 0xB0] @ ''thub.com''"
  have h: "hostname (sample_url ?h ''/x'' []) = ?h" "port_of (sample_url ?h ''/x'' []) = []"
    "\<not> is_ascii ?h"
    by code_simp+
  have l: "lower_runes ?h = runes ''github.com''"
    by (simp add: lower_runes_def runes_dotted_I runes_ascii_Cons bval_def in_range_def lower_rune_def)
  show ?thesis
  proof (intro exI conjI)
    show "assetRedirectAllowed u (sample_url ?h ''/x'' []) = None"
      unfolding assetRedirectAllowed_def h l Let_def using assms by (simp add: sample_url_def)
    show "\<not> is_ascii (hostname (sample_url ?h ''/x'' []))" unfolding h(1) by (rule h(3))
    show "hostname (sample_url ?h ''/x'' []) = ?h" by (rule h(1))
  qed
qed

theorem redirect_policy_not_ascii_witness:
  "\<exists>t. assetRedirectAllowed sample_updater t = None \<and> \<not> is_ascii (hostname t)"
proof -
  have "\<not> up_allowHTTP sample_updater" by (simp add: sample_updater_def)
  from redirect_policy_not_ascii [OF this] show ?thesis by (elim exE conjE) (intro exI conjI)
qed

text \<open>C21 Release metadata is accepted exactly when it is a published stable release, neither draft nor
  prerelease, with one asset of the expected name whose size, URL and digest are valid; the result carries
  that asset's fields.\<close>

theorem release_accepted:
  assumes "expected \<noteq> []"
  shows "check_release lb u expected m = Inr (rel, asset) \<longleftrightarrow>
    \<not> gr_draft m \<and> \<not> gr_prerelease m \<and> isStableVersion (lb_semver lb) (gr_tag_name m)
    \<and> gr_published_at m \<noteq> 0 \<and> validateURL (lb_url lb) u (gr_html_url m) False = None
    \<and> rel = release_of m
    \<and> (\<exists>a. filter (\<lambda>a. ga_name a = expected) (gr_assets m) = [a] \<and> asset_ok (lb_url lb) u a asset)"
  using assms by (rule check_release_iff)

theorem release_accepted_witness:
  "check_release sample_libs sample_updater ''tool_linux_amd64.tar.gz'' sample_release
     = Inr (release_of sample_release,
         \<lparr>ra_name = ''tool_linux_amd64.tar.gz'', ra_downloadURL = ''https://github.com/acme/tool/a'',
          ra_digest = sample_hash ''new'', ra_size = 3\<rparr>)
   \<and> isStableVersion exact_semver (gr_tag_name sample_release)"
proof -
  have r: "check_release sample_libs sample_updater ''tool_linux_amd64.tar.gz'' sample_release
     = Inr (release_of sample_release,
         \<lparr>ra_name = ''tool_linux_amd64.tar.gz'', ra_downloadURL = ''https://github.com/acme/tool/a'',
          ra_digest = sample_hash ''new'', ra_size = 3\<rparr>)"
    by code_simp
  have "''tool_linux_amd64.tar.gz'' \<noteq> []" by simp
  from r release_accepted [OF this, THEN iffD1, OF r] show ?thesis by (simp add: sample_libs_def)
qed

end
