(* ===== verification/Attestation.thy ===== *)
theory Attestation
  imports Http
begin

text \<open>
  Artifact attestations (attestation.go): the pages of the attestation API with their limits and
  the checks on the next page's link, the bundles behind them, the loop that asks the verifier
  about each bundle, and the provenance record that ties a plan to what was verified. The verifier
  itself is the interface of verifier.go.
\<close>

definition attestationIssuer :: string where
  "attestationIssuer = ''https://token.actions.githubusercontent.com''"

definition attestationPredicate :: string where
  "attestationPredicate = ''https://slsa.dev/provenance/v1''"

definition attestationBundleHost :: string where
  "attestationBundleHost = ''tmaproduction.blob.core.windows.net''"

definition maxAttestationBytes :: int where "maxAttestationBytes = 8 * 2 ^ 20"
definition maxCompressedBundleSize :: int where "maxCompressedBundleSize = 4 * 2 ^ 20"
definition maxAttestationPages :: nat where "maxAttestationPages = 3"
definition maxAttestations :: nat where "maxAttestations = 300"

section \<open>Records\<close>

definition attestation_request :: "updater \<Rightarrow> releaseInfo \<Rightarrow> releaseAsset \<Rightarrow> attestationRequest" where
  "attestation_request u release asset =
     \<lparr>ar_SignerIdentity =
        ''https://github.com/'' @ up_owner u @ ''/'' @ up_repository u @ ''/''
        @ up_attestationWorkflow u @ ''@refs/tags/'' @ rel_Version release,
      ar_Issuer = attestationIssuer,
      ar_PredicateType = attestationPredicate,
      ar_AssetName = ra_name asset,
      ar_DigestSHA256 = ra_digest asset,
      ar_SourceRepository = ''https://github.com/'' @ up_owner u @ ''/'' @ up_repository u,
      ar_SourceOwner = ''https://github.com/'' @ up_owner u\<rparr>"

definition newProvenanceRecord :: "updater \<Rightarrow> releaseInfo \<Rightarrow> releaseAsset \<Rightarrow> provenanceRecord" where
  "newProvenanceRecord u release asset =
     \<lparr>pv_owner = up_owner u, pv_repository = up_repository u,
      pv_workflow = up_attestationWorkflow u, pv_version = rel_Version release,
      pv_assetName = ra_name asset, pv_digest = ra_digest asset\<rparr>"

definition matches :: "provenanceRecord \<Rightarrow> updater \<Rightarrow> plan \<Rightarrow> bool" where
  "matches p u plan \<longleftrightarrow>
     pv_owner p = up_owner u \<and> pv_repository p = up_repository u
     \<and> pv_workflow p = up_attestationWorkflow u \<and> pv_version p = pl_availableVersion plan
     \<and> pv_assetName p = pl_assetName plan \<and> pv_digest p = pl_archiveDigest plan"

definition workflow_prefix :: string where
  "workflow_prefix = ''.github/workflows/''"

definition validateAttestationWorkflow :: "string \<Rightarrow> gerror option" where
  "validateAttestationWorkflow workflow =
     (if length workflow > 255 \<or> \<not> has_prefix workflow workflow_prefix
      then Some (ErrorString ''selfupdate: attestation signer workflow must be .github/workflows/<filename>.yml or .yaml'')
      else
        (let filename = trim_prefix workflow workflow_prefix
         in if filename = []
               \<or> contains_any filename [CHR ''/'', CHR 0x5C, CHR '':'', CHR 0x00, CHR 0x0D, CHR 0x0A, CHR 0x09]
               \<or> trim_space filename \<noteq> filename
            then Some (ErrorString ''selfupdate: attestation signer workflow must contain one canonical filename'')
            else if list_ex (\<lambda>r. is_space_rune r \<or> is_control_rune r) (runes filename)
            then Some (ErrorString ''selfupdate: attestation signer workflow must not contain whitespace or control characters'')
            else if \<not> has_suffix filename ''.yml'' \<and> \<not> has_suffix filename ''.yaml''
            then Some (ErrorString ''selfupdate: attestation signer workflow must end in .yml or .yaml'')
            else
              (let base = trim_suffix (trim_suffix filename ''.yaml'') ''.yml''
               in if base = [] \<or> base = ''.'' \<or> base = ''..''
                  then Some (ErrorString ''selfupdate: attestation signer workflow filename is empty or a dot segment'')
                  else None)))"

section \<open>Pages\<close>

definition attestationAPIURL :: "url_lib \<Rightarrow> updater \<Rightarrow> bytes \<Rightarrow> gerror + string" where
  "attestationAPIURL ul u digest =
     (case api_base ul u of
        Inl e \<Rightarrow> Inl e
      | Inr base \<Rightarrow>
          Inr (url_string ul
            (base\<lparr>u_path := api_path u base (''attestations/sha256:'' @ hex_encode digest),
                  u_rawquery := ''predicate_type='' @ query_escape attestationPredicate @ ''&per_page=100''\<rparr>)))"

definition fetchAttestationPage :: "libs \<Rightarrow> updater \<Rightarrow> string \<Rightarrow> (bytes \<times> string) io" where
  "fetchAttestationPage lb u pageURL =
     bindE (wrapE ''selfupdate: create attestation request: %w'' [] (newRequest (lb_url lb) pageURL))
       (\<lambda>target.
          bindE (wrapE ''selfupdate: fetch attestation metadata: %w'' []
              (client_do api_redirect (has_token u) (client_timeout u) CtxDeadlineExceeded target))
            (\<lambda>(r, elapsed).
               if bad_status r
               then fail (Errorf ''selfupdate: fetch attestation metadata: HTTP %d'' [AInt (r_status r)])
               else if r_content_length r > maxAttestationBytes
               then fail (Errorf ''selfupdate: attestation response Content-Length exceeds the %d-byte limit''
                 [AInt maxAttestationBytes])
               else bindE (wrapE ''selfupdate: read attestation response: %w'' []
                   (read_all maxAttestationBytes
                     (timed_stream (client_timeout u) CtxDeadlineExceeded elapsed (r_body r))))
                 (\<lambda>body. if int (length body) > maxAttestationBytes
                    then fail (Errorf ''selfupdate: attestation response exceeds the %d-byte limit''
                      [AInt maxAttestationBytes])
                    else ret (body, r_link r))))"

text \<open>The loop over the comma-separated parts of a Link header.\<close>

fun next_link :: "string list \<Rightarrow> string \<Rightarrow> gerror + string" where
  "next_link [] nxt = Inr nxt"
| "next_link (part # parts) nxt =
     (let sections = split_on CHR '';'' part
      in if length sections < 2
         then Inl (ErrorString ''selfupdate: malformed attestation pagination link'')
         else if \<not> list_ex (\<lambda>s. trim_space s = ''rel='' @ [CHR 0x22] @ ''next'' @ [CHR 0x22]) (tl sections)
         then next_link parts nxt
         else
           (let v = trim_space (hd sections)
            in if length v < 3 \<or> hd v \<noteq> CHR ''<'' \<or> last v \<noteq> CHR ''>'' \<or> nxt \<noteq> []
               then Inl (ErrorString ''selfupdate: malformed attestation next-page link'')
               else next_link parts (butlast (tl v))))"

definition query_get :: "(string \<times> string list) list \<Rightarrow> string \<Rightarrow> string" where
  "query_get q k = (case map_of q k of Some (v # vs) \<Rightarrow> v | _ \<Rightarrow> [])"

text \<open>The checks on a next-page URL against the current one.\<close>

definition unsafe_next :: "url_lib \<Rightarrow> url \<Rightarrow> url \<Rightarrow> bool" where
  "unsafe_next ul cur nxt \<longleftrightarrow>
     length (url_string ul nxt) > 4096 \<or> u_scheme nxt \<noteq> u_scheme cur
     \<or> \<not> equal_fold (u_host nxt) (u_host cur) \<or> u_path nxt \<noteq> u_path cur
     \<or> url_escaped_path ul nxt \<noteq> url_escaped_path ul cur \<or> u_user nxt \<or> u_fragment nxt \<noteq> []
     \<or> u_opaque nxt \<noteq> []"

definition changed_query :: "(string \<times> string list) list \<Rightarrow> bool" where
  "changed_query q \<longleftrightarrow>
     query_get q ''predicate_type'' \<noteq> attestationPredicate \<or> query_get q ''per_page'' \<noteq> ''100''
     \<or> query_get q ''before'' = []"

definition unsafe_query :: "(string \<times> string list) list \<Rightarrow> bool" where
  "unsafe_query q \<longleftrightarrow>
     list_ex (\<lambda>(k, vs). k \<noteq> ''predicate_type'' \<and> k \<noteq> ''per_page'' \<and> k \<noteq> ''before''
                \<or> length vs \<noteq> 1) q"

definition nextAttestationPage :: "url_lib \<Rightarrow> string \<Rightarrow> string \<Rightarrow> gerror + string" where
  "nextAttestationPage ul current linkHeader =
     (if trim_space linkHeader = [] then Inr []
      else (case next_link (split_on CHR '','' linkHeader) [] of
        Inl e \<Rightarrow> Inl e
      | Inr nxt \<Rightarrow>
          if nxt = [] then Inr []
          else (case url_parse ul current of
            None \<Rightarrow> Inl (ErrorString ''selfupdate: invalid current attestation page URL'')
          | Some currentURL \<Rightarrow>
              (case url_parse ul nxt of
                 None \<Rightarrow> Inl (ErrorString ''selfupdate: invalid attestation next-page URL'')
               | Some parsed \<Rightarrow>
                   (let nextURL = (if is_abs parsed then parsed else url_resolve ul currentURL parsed);
                        query = url_query ul nextURL
                    in if unsafe_next ul currentURL nextURL
                       then Inl (ErrorString ''selfupdate: unsafe attestation next-page URL'')
                       else if changed_query query
                       then Inl (ErrorString ''selfupdate: attestation next-page query changed required parameters'')
                       else if unsafe_query query
                       then Inl (ErrorString ''selfupdate: unsafe attestation next-page query'')
                       else Inr (url_string ul nextURL))))))"

section \<open>Bundles\<close>

definition bundle_redirect :: "updater \<Rightarrow> bool \<Rightarrow> nat \<Rightarrow> url \<Rightarrow> gerror option" where
  "bundle_redirect u auth via target =
     (if auth
      then Some (ErrorString ''selfupdate: authorization on attestation bundle redirect rejected'')
      else if u_scheme target \<noteq> ''https'' \<or> u_user target \<or> u_fragment target \<noteq> []
         \<or> \<not> equal_fold (hostname target) (up_attestationBundleHost u) \<or> port_of target \<noteq> []
      then Some (ErrorString ''selfupdate: unsafe attestation bundle redirect rejected'')
      else None)"

text \<open>The checks on a bundle's URL.\<close>

definition check_bundle_url :: "url_lib \<Rightarrow> updater \<Rightarrow> string \<Rightarrow> gerror + url" where
  "check_bundle_url ul u rawURL =
     (case url_parse ul rawURL of
        None \<Rightarrow> Inl (ErrorString ''selfupdate: unsafe attestation bundle URL'')
      | Some parsed \<Rightarrow>
          if length rawURL = 0 \<or> length rawURL > 4096 \<or> \<not> is_abs parsed \<or> u_host parsed = []
             \<or> u_user parsed \<or> u_fragment parsed \<noteq> []
          then Inl (ErrorString ''selfupdate: unsafe attestation bundle URL'')
          else if u_scheme parsed \<noteq> ''https'' \<and> (\<not> up_allowHTTP u \<or> u_scheme parsed \<noteq> ''http'')
          then Inl (ErrorString ''selfupdate: attestation bundle URL must use HTTPS'')
          else if \<not> equal_fold (hostname parsed) (up_attestationBundleHost u)
                  \<or> \<not> up_allowHTTP u \<and> port_of parsed \<noteq> []
          then Inl (ErrorString ''selfupdate: attestation bundle URL uses an untrusted host'')
          else Inr parsed)"

definition decode_bundle :: "snappy_lib \<Rightarrow> bytes \<Rightarrow> gerror + bytes" where
  "decode_bundle sn compressed =
     (case snappy_DecodedLen sn compressed of
        Inl e \<Rightarrow> Inl (Wrapf ''selfupdate: decode attestation bundle framing: %w'' [] e)
      | Inr n \<Rightarrow>
          if n > maxAttestationBytes
          then Inl (Errorf ''selfupdate: attestation bundle exceeds the %d-byte limit'' [AInt maxAttestationBytes])
          else (case snappy_Decode sn compressed of
                  Inl e \<Rightarrow> Inl (Wrapf ''selfupdate: decompress attestation bundle: %w'' [] e)
                | Inr decoded \<Rightarrow> Inr decoded))"

definition fetchAttestationBundle :: "libs \<Rightarrow> updater \<Rightarrow> string \<Rightarrow> bytes io" where
  "fetchAttestationBundle lb u rawURL =
     bindE (liftE (check_bundle_url (lb_url lb) u rawURL))
       (\<lambda>parsed.
          bindE (wrapE ''selfupdate: create attestation bundle request: %w'' []
              (newRequest (lb_url lb) (url_string (lb_url lb) parsed)))
            (\<lambda>target.
               bindE (handleE
                   (client_do (bundle_redirect u False) False (client_timeout u) CtxDeadlineExceeded target)
                   (\<lambda>e. bindE (askE ctx_err)
                      (\<lambda>c. case c of
                         Some ctxErr \<Rightarrow> fail ctxErr
                       | None \<Rightarrow> fail (ErrorString ''selfupdate: fetch attestation bundle: request failed''))))
                 (\<lambda>(r, elapsed).
                    if bad_status r
                    then fail (Errorf ''selfupdate: fetch attestation bundle: HTTP %d'' [AInt (r_status r)])
                    else if r_content_length r > maxCompressedBundleSize
                    then fail (Errorf ''selfupdate: compressed attestation bundle exceeds the %d-byte limit''
                      [AInt maxCompressedBundleSize])
                    else bindE (wrapE ''selfupdate: read attestation bundle: %w'' []
                        (read_all maxCompressedBundleSize
                          (timed_stream (client_timeout u) CtxDeadlineExceeded elapsed (r_body r))))
                      (\<lambda>compressed. if int (length compressed) > maxCompressedBundleSize
                         then fail (Errorf ''selfupdate: compressed attestation bundle exceeds the %d-byte limit''
                           [AInt maxCompressedBundleSize])
                         else liftE (decode_bundle (lb_snappy lb) compressed)))))"

section \<open>Verification\<close>

text \<open>
  The bundles of one page: \<open>Inl record\<close> when the verifier accepts one, \<open>Inr\<close> the first failure when
  none is accepted; an error of the context ends the whole verification.
\<close>

fun page_bundles ::
  "libs \<Rightarrow> updater \<Rightarrow> verifier \<Rightarrow> releaseInfo \<Rightarrow> releaseAsset \<Rightarrow> string list \<Rightarrow> gerror option \<Rightarrow>
   (provenanceRecord + gerror option) io" where
  "page_bundles lb u v release asset [] firstFailure = ret (Inr firstFailure)"
| "page_bundles lb u v release asset (bundleURL # urls) firstFailure =
     thenE ctx_check
       (if bundleURL = []
        then page_bundles lb u v release asset urls
          (Some (keepFirstError firstFailure (ErrorString ''attestation has no bundle URL'')))
        else tryE (fetchAttestationBundle lb u bundleURL)
          (\<lambda>e. if isContextError e then fail e
                else page_bundles lb u v release asset urls
                  (Some (keepFirstError firstFailure (Wrapf ''external attestation bundle: %w'' [] e))))
          (\<lambda>bundleJSON.
             tryE (v bundleJSON (attestation_request u release asset))
               (\<lambda>e. if isContextError e then fail e
                     else page_bundles lb u v release asset urls
                       (Some (keepFirstError firstFailure (Wrapf ''external attestation bundle: %w'' [] e))))
               (\<lambda>_. ret (Inl (newProvenanceRecord u release asset)))))"

definition ensureSingleJSONValue :: "gerror option \<Rightarrow> string \<Rightarrow> gerror option" where
  "ensureSingleJSONValue second description =
     (case second of
        None \<Rightarrow> Some (Errorf ''selfupdate: %s contains more than one JSON value'' [AStr description])
      | Some e \<Rightarrow>
          if errors_is e ErrEOF then None
          else Some (Wrapf ''selfupdate: decode trailing %s: %w'' [AStr description] e))"

text \<open>One page: its body, decoded, with the number of attestations seen before it.\<close>

definition attestation_page ::
  "libs \<Rightarrow> updater \<Rightarrow> string \<Rightarrow> nat \<Rightarrow> (string list \<times> string) io" where
  "attestation_page lb u pageURL seen =
     thenE ctx_check
       (bindE (fetchAttestationPage lb u pageURL)
         (\<lambda>(body, link).
            bindE (wrapE ''selfupdate: decode attestation response: %w'' []
                (liftE (json_attestations (lb_json lb) body)))
              (\<lambda>(urls, second).
                 case ensureSingleJSONValue second ''attestation response'' of
                   Some e \<Rightarrow> fail e
                 | None \<Rightarrow>
                     if int (length urls) > int maxAttestations - int seen
                     then fail (ErrorString ''selfupdate: attestation result limit exceeded'')
                     else ret (urls, link))))"

text \<open>The loop over the pages; \<open>n\<close> is the number of pages that may still be fetched.\<close>

fun attestation_pages ::
  "libs \<Rightarrow> updater \<Rightarrow> verifier \<Rightarrow> releaseInfo \<Rightarrow> releaseAsset \<Rightarrow> nat \<Rightarrow> string \<Rightarrow> nat \<Rightarrow> gerror option \<Rightarrow>
   provenanceRecord io" where
  "attestation_pages lb u v release asset n pageURL seen firstFailure =
     (if n = 0 \<or> pageURL = []
      then
        (if pageURL \<noteq> [] then fail (ErrorString ''selfupdate: attestation pagination limit exceeded'')
         else (case firstFailure of
                 Some e \<Rightarrow> fail (Wrapf ''selfupdate: no valid artifact attestation for %s: %w''
                   [AStr (ra_name asset)] e)
               | None \<Rightarrow> fail (Errorf ''selfupdate: no artifact attestations found for %s''
                   [AStr (ra_name asset)])))
      else
        bindE (attestation_page lb u pageURL seen)
          (\<lambda>(urls, link).
             bindE (page_bundles lb u v release asset urls firstFailure)
               (\<lambda>outcome. case outcome of
                  Inl record \<Rightarrow> ret record
                | Inr failure \<Rightarrow>
                    bindE (liftE (nextAttestationPage (lb_url lb) pageURL link))
                      (\<lambda>nxt. attestation_pages lb u v release asset (n - 1) nxt
                         (seen + length urls) failure))))"

declare attestation_pages.simps [simp del]

definition verifyAttestation ::
  "libs \<Rightarrow> updater \<Rightarrow> verifier \<Rightarrow> releaseInfo \<Rightarrow> releaseAsset \<Rightarrow> provenanceRecord io" where
  "verifyAttestation lb u v release asset =
     bindE (liftE (attestationAPIURL (lb_url lb) u (ra_digest asset)))
       (\<lambda>pageURL. attestation_pages lb u v release asset maxAttestationPages pageURL 0 None)"

section \<open>Soundness\<close>

text \<open>The verifier accepted a bundle for exactly this request.\<close>

definition accepted :: "verifier \<Rightarrow> attestationRequest \<Rightarrow> bool" where
  "accepted v request \<longleftrightarrow> (\<exists>bundle w w'. v bundle request w = (Inr (), w'))"

lemma page_bundles_sound:
  "hoare (\<lambda>_. True) (page_bundles lb u v rel asset urls failure)
     (\<lambda>r w. \<forall>p. r = Inl p \<longrightarrow>
        p = newProvenanceRecord u rel asset \<and> accepted v (attestation_request u rel asset))
     (\<lambda>_ _. True)"
proof (induction urls arbitrary: failure)
  case Nil
  show ?case by (auto intro: hoare_ret)
next
  case (Cons url urls)
  have any: "hoare (\<lambda>_. True) m (\<lambda>_ _. True) (\<lambda>_ _. True)" for m :: "'x io"
    by (simp add: hoare_def split: prod.split sum.split)
  have verify: "hoare (\<lambda>_. True) (v b req) (\<lambda>_ _. accepted v req) (\<lambda>_ _. True)" for b req
    by (auto simp: hoare_def accepted_def split: prod.split sum.split)
  have failing: "hoare (\<lambda>_. True) (fail e) Q (\<lambda>_ _. True)" for e and Q :: "'x \<Rightarrow> world \<Rightarrow> bool"
    by (rule hoare_fail) simp
  show ?case
    unfolding page_bundles.simps
    by (rule hoare_then [OF any], rule hoare_if, rule Cons, rule hoare_try [OF any],
        rule hoare_if, rule failing, rule Cons, rule hoare_try [OF verify], rule hoare_if,
        rule failing, rule Cons) (auto intro: hoare_ret)
qed

lemma attestation_pages_sound:
  "hoare (\<lambda>_. True) (attestation_pages lb u v rel asset n pageURL seen failure)
     (\<lambda>p w. p = newProvenanceRecord u rel asset \<and> accepted v (attestation_request u rel asset))
     (\<lambda>_ _. True)"
proof (induction n arbitrary: pageURL seen failure)
  case 0
  show ?case
    by (auto simp: attestation_pages.simps intro!: hoare_fail split: option.split)
next
  case (Suc n)
  have any: "hoare (\<lambda>_. True) m (\<lambda>_ _. True) (\<lambda>_ _. True)" for m :: "'x io"
    by (simp add: hoare_def split: prod.split sum.split)
  show ?case
  proof (cases "pageURL = []")
    case True
    then show ?thesis
      by (auto simp: attestation_pages.simps intro!: hoare_fail split: option.split)
  next
    case False
    have step: "hoare (\<lambda>_. True)
      (bindE (page_bundles lb u v rel asset urls failure)
         (\<lambda>outcome. case outcome of
            Inl record \<Rightarrow> ret record
          | Inr failure \<Rightarrow>
              bindE (liftE (nextAttestationPage (lb_url lb) pageURL link))
                (\<lambda>nxt. attestation_pages lb u v rel asset n nxt (seen + length urls) failure)))
      (\<lambda>p w. p = newProvenanceRecord u rel asset \<and> accepted v (attestation_request u rel asset))
      (\<lambda>_ _. True)" for urls link
    proof (rule hoare_bind [OF page_bundles_sound])
      fix outcome
      show "hoare (\<lambda>w. \<forall>p. outcome = Inl p \<longrightarrow>
            p = newProvenanceRecord u rel asset \<and> accepted v (attestation_request u rel asset))
        (case outcome of
            Inl record \<Rightarrow> ret record
          | Inr failure \<Rightarrow>
              bindE (liftE (nextAttestationPage (lb_url lb) pageURL link))
                (\<lambda>nxt. attestation_pages lb u v rel asset n nxt (seen + length urls) failure))
        (\<lambda>p w. p = newProvenanceRecord u rel asset \<and> accepted v (attestation_request u rel asset))
        (\<lambda>_ _. True)"
      proof (cases outcome)
        case (Inl p)
        then show ?thesis by (auto intro: hoare_ret)
      next
        case (Inr f)
        from hoare_bind [OF any Suc] show ?thesis
          unfolding Inr sum.case by (rule hoare_pre) simp
      qed
    qed
    have eq: "attestation_pages lb u v rel asset (Suc n) pageURL seen failure =
        bindE (attestation_page lb u pageURL seen)
          (\<lambda>(urls, link).
             bindE (page_bundles lb u v rel asset urls failure)
               (\<lambda>outcome. case outcome of
                  Inl record \<Rightarrow> ret record
                | Inr failure \<Rightarrow>
                    bindE (liftE (nextAttestationPage (lb_url lb) pageURL link))
                      (\<lambda>nxt. attestation_pages lb u v rel asset n nxt (seen + length urls) failure)))"
      using False by (subst attestation_pages.simps) simp
    show ?thesis
      unfolding eq by (rule hoare_bind [OF any]) (simp only: split_beta, rule step)
  qed
qed

lemma verifyAttestation_sound:
  assumes "verifyAttestation lb u v rel asset w = (Inr p, w')"
  shows "p = newProvenanceRecord u rel asset \<and> accepted v (attestation_request u rel asset)"
proof -
  have "hoare (\<lambda>_. True) (verifyAttestation lb u v rel asset)
     (\<lambda>p w. p = newProvenanceRecord u rel asset \<and> accepted v (attestation_request u rel asset))
     (\<lambda>_ _. True)"
    unfolding verifyAttestation_def
    by (rule hoare_bind [where R = "\<lambda>_ _. True", OF hoare_lift attestation_pages_sound]) auto
  from hoareD_ok [OF this _ assms] show ?thesis by simp
qed

section \<open>The next page is the same page\<close>

text \<open>
  A page that differs from the current one in its cursor only. The next URL \<open>v\<close> comes from text, and
  it has the scheme, the host (up to case), the path and the escaped path of the current page, no user
  information, fragment or opaque part, and a query of the predicate type, the page size and a cursor
  that is not empty, each given once.
\<close>

definition page_query :: "(string \<times> string list) list \<Rightarrow> bool" where
  "page_query q \<longleftrightarrow>
     query_get q ''predicate_type'' = attestationPredicate \<and> query_get q ''per_page'' = ''100''
     \<and> query_get q ''before'' \<noteq> []
     \<and> list_all (\<lambda>(k, vs). (k = ''predicate_type'' \<or> k = ''per_page'' \<or> k = ''before'') \<and> length vs = 1) q"

definition same_endpoint :: "url_lib \<Rightarrow> string \<Rightarrow> string \<Rightarrow> bool" where
  "same_endpoint ul current nxt \<longleftrightarrow>
     (\<exists>cur v. url_parse ul current = Some cur \<and> from_text ul v \<and> nxt = url_string ul v
        \<and> u_scheme v = u_scheme cur \<and> equal_fold (u_host v) (u_host cur) \<and> u_path v = u_path cur
        \<and> url_escaped_path ul v = url_escaped_path ul cur
        \<and> \<not> u_user v \<and> u_fragment v = [] \<and> u_opaque v = [] \<and> length nxt \<le> 4096
        \<and> page_query (url_query ul v))"

lemma safe_query: "\<not> unsafe_query q \<and> \<not> changed_query q \<Longrightarrow> page_query q"
  by (auto simp: unsafe_query_def changed_query_def page_query_def list_ex_iff list_all_iff)

lemma nextAttestationPage_safe:
  assumes "nextAttestationPage ul current link = Inr nxt" "nxt \<noteq> []"
  shows "same_endpoint ul current nxt"
proof -
  have link: "trim_space link \<noteq> []"
    using assms by (auto simp: nextAttestationPage_def)
  obtain nx where nx: "next_link (split_on CHR '','' link) [] = Inr nx"
    using assms(1) link by (cases "next_link (split_on CHR '','' link) []") (simp_all add: nextAttestationPage_def)
  have "nx \<noteq> []"
    using assms link nx by (auto simp: nextAttestationPage_def)
  note steps = assms(1) [unfolded nextAttestationPage_def if_not_P [OF link] nx sum.case if_not_P [OF this]]
  obtain cur where cur: "url_parse ul current = Some cur"
    using steps by (cases "url_parse ul current") simp_all
  obtain parsed where parsed: "url_parse ul nx = Some parsed"
    using steps cur by (cases "url_parse ul nx") simp_all
  define v where "v = (if is_abs parsed then parsed else url_resolve ul cur parsed)"
  have p: "\<not> unsafe_next ul cur v" "\<not> changed_query (url_query ul v)" "\<not> unsafe_query (url_query ul v)"
    "nxt = url_string ul v"
    using steps unfolding cur parsed option.case Let_def v_def [symmetric]
    by (simp_all split: if_splits)
  have origin: "from_text ul v"
    unfolding from_text_def
  proof (cases "is_abs parsed")
    case True
    with parsed show "(\<exists>s. url_parse ul s = Some v) \<or> (\<exists>s s' base ref. url_parse ul s = Some base
        \<and> url_parse ul s' = Some ref \<and> v = url_resolve ul base ref)" by (auto simp: v_def)
  next
    case False
    with cur parsed show "(\<exists>s. url_parse ul s = Some v) \<or> (\<exists>s s' base ref. url_parse ul s = Some base
        \<and> url_parse ul s' = Some ref \<and> v = url_resolve ul base ref)" unfolding v_def by (simp only: if_False) blast
  qed
  have query: "page_query (url_query ul v)"
    using p(2,3) by (intro safe_query conjI)
  show ?thesis
    unfolding same_endpoint_def using p(1) cur origin query unfolding p(4) [symmetric] unsafe_next_def
    by (intro exI [of _ cur] exI [of _ v]) (simp add: p(4) [symmetric])
qed

section \<open>Where the token goes\<close>

definition page_ok :: "url_lib \<Rightarrow> updater \<Rightarrow> string \<Rightarrow> bool" where
  "page_ok ul u s \<longleftrightarrow> (\<forall>t. url_parse ul s = Some t \<longrightarrow> same_api ul u t)"

lemma attestationAPIURL_page:
  assumes "url_law ul" "attestationAPIURL ul u d = Inr s"
  shows "page_ok ul u s"
proof -
  from assms(2) obtain base where b: "api_base ul u = Inr base"
    by (auto simp: attestationAPIURL_def split: sum.splits)
  with assms(2) have s: "s = url_string ul
      (base\<lparr>u_path := api_path u base (''attestations/sha256:'' @ hex_encode d),
            u_rawquery := ''predicate_type='' @ query_escape attestationPredicate @ ''&per_page=100''\<rparr>)"
    by (simp add: attestationAPIURL_def)
  show ?thesis
    unfolding page_ok_def s by (intro allI impI, erule same_api_reparse [OF assms(1) b])
qed

lemma nextAttestationPage_page:
  assumes law: "url_law ul" and page: "page_ok ul u current"
    and nxt: "nextAttestationPage ul current link = Inr nxt" "nxt \<noteq> []"
  shows "page_ok ul u nxt"
proof -
  from nextAttestationPage_safe [OF nxt] obtain cur v where v: "url_parse ul current = Some cur"
    "from_text ul v" "nxt = url_string ul v" "u_scheme v = u_scheme cur" "equal_fold (u_host v) (u_host cur)"
    unfolding same_endpoint_def by blast
  from page v(1) have "same_api ul u cur" by (simp add: page_ok_def)
  then obtain base where b: "api_base ul u = Inr base" "u_scheme cur = u_scheme base"
    "equal_fold (u_host cur) (u_host base)"
    by (auto simp: same_api_def split: sum.splits)
  from equal_fold_trans [OF v(5) b(3)] have host: "equal_fold (u_host v) (u_host base)" .
  with api_base_from_text [OF b(1)] have "u_host v \<noteq> []" by auto
  note law = url_law_same [OF law v(2) this]
  have "same_api ul u t" if "url_parse ul (url_string ul v) = Some t" for t
    using law [OF that] v(4) b host unfolding same_api_def by simp
  then show ?thesis
    unfolding page_ok_def v(3) by blast
qed

lemma fetchAttestationPage_requests:
  assumes page: "page_ok (lb_url lb) u pageURL"
    and R: "\<And>t. same_api (lb_url lb) u t \<Longrightarrow> R t (has_token u)"
  shows "preserves (requests_in R) (fetchAttestationPage lb u pageURL)"
proof -
  have failing: "hoare (requests_in R) (fail e) Q (\<lambda>_. requests_in R)"
    for e and Q :: "'x \<Rightarrow> world \<Rightarrow> bool"
    by (rule hoare_fail)
  have request: "hoare (requests_in R) (wrapE g args (newRequest (lb_url lb) pageURL))
      (\<lambda>t w. requests_in R w \<and> R t (has_token u)) (\<lambda>_. requests_in R)" for g args
    using page R unfolding newRequest_def page_ok_def
    by (intro hoare_wrap_any) (auto intro!: hoare_ret hoare_fail split: option.split)
  show ?thesis
    unfolding fetchAttestationPage_def
    by (rule hoare_bind [OF request], rule hoare_fact,
        rule hoare_bind [OF hoare_wrap_any [OF api_do_requests [of R]]], assumption,
        simp only: split_beta, rule hoare_if, rule failing, rule hoare_if, rule failing,
        rule hoare_bind [OF hoare_wrap_any [OF read_all_requests]], rule hoare_if, rule failing,
        rule hoare_ret)
qed

lemma fetchAttestationBundle_requests:
  assumes R: "\<And>t. R t False"
  shows "preserves (requests_in R) (fetchAttestationBundle lb u rawURL)"
proof -
  have failing: "hoare (requests_in R) (fail e) Q (\<lambda>_. requests_in R)"
    for e and Q :: "'x \<Rightarrow> world \<Rightarrow> bool"
    by (rule hoare_fail)
  have check: "hoare (requests_in R) (liftE (check_bundle_url (lb_url lb) u rawURL))
      (\<lambda>_. requests_in R) (\<lambda>_. requests_in R)"
    by (rule hoare_lift)
  have request: "preserves (requests_in R) (wrapE g args (newRequest (lb_url lb) raw))" for g args raw
    unfolding newRequest_def by (rule hoare_wrap_any) (auto intro!: hoare_ret hoare_fail split: option.split)
  have get: "preserves (requests_in R) (client_do chk False budget late t)" for chk budget late t
    by (rule client_do_requests) (rule R)+
  have masked: "hoare (requests_in R)
      (bindE (askE ctx_err) (\<lambda>c. case c of Some ctxErr \<Rightarrow> fail ctxErr | None \<Rightarrow> fail e))
      (\<lambda>_. requests_in R) (\<lambda>_. requests_in R)" for e and dummy :: "'x"
    by (rule hoare_bind [OF hoare_ask [where Q = "\<lambda>_. requests_in R"]])
      (auto intro!: hoare_fail split: option.split)
  show ?thesis
    unfolding fetchAttestationBundle_def
    by (rule hoare_bind [OF check], rule hoare_bind [OF request],
        rule hoare_bind [OF hoare_handle [OF get masked]], simp only: split_beta,
        rule hoare_if, rule failing, rule hoare_if, rule failing,
        rule hoare_bind [OF hoare_wrap_any [OF read_all_requests]], rule hoare_if, rule failing,
        rule hoare_lift)
qed

lemma page_bundles_requests:
  assumes R: "\<And>t. R t False" and v: "\<And>b req. preserves (requests_in R) (v b req)"
  shows "preserves (requests_in R) (page_bundles lb u v rel asset urls failure)"
proof (induction urls arbitrary: failure)
  case Nil
  show ?case by (auto intro: hoare_ret)
next
  case (Cons url urls)
  have ctx: "preserves (requests_in R) ctx_check" by (rule hoare_ctx_check)
  have failing: "hoare (requests_in R) (fail e) Q (\<lambda>_. requests_in R)"
    for e and Q :: "'x \<Rightarrow> world \<Rightarrow> bool"
    by (rule hoare_fail)
  show ?case
    unfolding page_bundles.simps
    by (rule hoare_then [OF ctx], rule hoare_if, rule Cons,
        rule hoare_try [OF fetchAttestationBundle_requests], rule R, rule hoare_if, rule failing,
        rule Cons, rule hoare_try [OF v], rule hoare_if, rule failing, rule Cons, rule hoare_ret)
qed

lemma attestation_pages_requests:
  assumes law: "url_law (lb_url lb)" and R: "\<And>t. R t False"
    and R': "\<And>t. same_api (lb_url lb) u t \<Longrightarrow> R t (has_token u)"
    and v: "\<And>b req. preserves (requests_in R) (v b req)"
  shows "pageURL = [] \<or> page_ok (lb_url lb) u pageURL \<Longrightarrow>
    preserves (requests_in R) (attestation_pages lb u v rel asset n pageURL seen failure)"
proof (induction n arbitrary: pageURL seen failure)
  case 0
  show ?case
    by (auto simp: attestation_pages.simps intro!: hoare_fail split: option.split)
next
  case (Suc n)
  show ?case
  proof (cases "pageURL = []")
    case True
    then show ?thesis
      by (auto simp: attestation_pages.simps intro!: hoare_fail split: option.split)
  next
    case False
    with Suc.prems have page: "page_ok (lb_url lb) u pageURL" by blast
    have get: "preserves (requests_in R) (attestation_page lb u pageURL seen)"
      unfolding attestation_page_def
      by (rule hoare_then [OF hoare_ctx_check],
          assumption, assumption, rule hoare_bind [OF fetchAttestationPage_requests [where R = R, OF page R']],
          assumption, simp only: split_beta,
          rule hoare_bind [OF hoare_wrap_any [OF hoare_lift [where Q = "\<lambda>_. requests_in R"]]])
        (auto intro!: hoare_fail hoare_ret split: option.split)
    have link: "hoare (requests_in R) (liftE (nextAttestationPage (lb_url lb) pageURL l))
        (\<lambda>nxt w. requests_in R w \<and> (nxt = [] \<or> page_ok (lb_url lb) u nxt)) (\<lambda>_. requests_in R)" for l
      by (rule hoare_lift) (use nextAttestationPage_page [OF law page] in auto)
    have rest: "hoare (requests_in R)
        (case outcome of Inl record \<Rightarrow> ret record
         | Inr failure \<Rightarrow> bindE (liftE (nextAttestationPage (lb_url lb) pageURL l))
             (\<lambda>nxt. attestation_pages lb u v rel asset n nxt k failure))
        (\<lambda>_. requests_in R) (\<lambda>_. requests_in R)" for outcome l k
    proof (cases outcome)
      case (Inl p)
      then show ?thesis by (auto intro: hoare_ret)
    next
      case (Inr f)
      show ?thesis
        unfolding Inr sum.case by (rule hoare_bind [OF link], rule hoare_fact, rule Suc.IH)
    qed
    show ?thesis
      using False
      by (subst attestation_pages.simps)
        (simp, intro hoare_bind [OF get], simp only: split_beta,
         intro hoare_bind [OF page_bundles_requests [where R = R, OF R v]] rest)
  qed
qed

lemma verifyAttestation_requests:
  assumes law: "url_law (lb_url lb)" and R: "\<And>t. R t False"
    and R': "\<And>t. same_api (lb_url lb) u t \<Longrightarrow> R t (has_token u)"
    and v: "\<And>b req. preserves (requests_in R) (v b req)"
  shows "preserves (requests_in R) (verifyAttestation lb u v rel asset)"
proof -
  have url: "hoare (requests_in R) (liftE (attestationAPIURL (lb_url lb) u d))
      (\<lambda>s w. requests_in R w \<and> (s = [] \<or> page_ok (lb_url lb) u s)) (\<lambda>_. requests_in R)" for d
    by (rule hoare_lift) (use attestationAPIURL_page [OF law] in auto)
  show ?thesis
    unfolding verifyAttestation_def
    by (rule hoare_bind [OF url], rule hoare_fact, rule attestation_pages_requests [where R = R])
      (use assms in auto)
qed

section \<open>Properties of the attestation protocol\<close>

text \<open>The requests to the API: those with the token, and those to any host but the bundles' one.\<close>

definition is_api_request :: "updater \<Rightarrow> effect \<Rightarrow> bool" where
  "is_api_request u e \<longleftrightarrow>
     (case e of
        ERequest t token \<Rightarrow> token \<or> \<not> equal_fold (hostname t) (up_attestationBundleHost u)
      | _ \<Rightarrow> False)"

definition api_requests :: "updater \<Rightarrow> world \<Rightarrow> nat" where
  "api_requests u w = length (filter (is_api_request u) (effects w))"

lemma api_as_requests: "api_requests u w = length (filter (is_api_request u) (requests w))"
  unfolding api_requests_def requests_def filter_filter
  by (rule arg_cong [where f = length], rule filter_cong)
    (auto simp: is_request_def is_api_request_def split: effect.splits)

lemma api_one_request:
  "hoare (\<lambda>w. api_requests u w \<le> k) (client_do api_redirect auth budget late target)
     (\<lambda>_ w. api_requests u w \<le> Suc k) (\<lambda>_ w. api_requests u w \<le> Suc k)"
proof -
  have "api_requests u w' \<le> Suc k"
    if "api_requests u w \<le> k" "client_do api_redirect auth budget late target w = (r, w')" for w r w'
  proof -
    from client_hops_effects [OF that(2) [unfolded client_do_def]] obtain ts where
      ts: "effects w' = map (\<lambda>t. ERequest t auth) (rev ts) @ effects w" "hop_chain api_redirect 0 ts" by blast
    have "length ts \<le> 1"
      using ts(2) by (cases "(api_redirect, 0::nat, ts)" rule: hop_chain.cases) (auto simp: api_redirect_def)
    then have "length (filter (is_api_request u) (map (\<lambda>t. ERequest t auth) (rev ts))) \<le> 1"
      using length_filter_le le_trans by (metis length_map length_rev)
    with ts(1) that(1) show ?thesis by (simp add: api_requests_def)
  qed
  then show ?thesis by (intro hoareI) blast+
qed

lemma bundle_no_api_request:
  assumes "equal_fold (hostname target) (up_attestationBundleHost u)"
  shows "preserves (\<lambda>w. api_requests u w \<le> k) (client_do (bundle_redirect u False) False budget late target)"
proof -
  have "api_requests u w' \<le> k"
    if "api_requests u w \<le> k" "client_do (bundle_redirect u False) False budget late target w = (r, w')" for w r w'
  proof -
    from client_hops_effects [OF that(2) [unfolded client_do_def]] obtain ts where
      ts: "effects w' = map (\<lambda>t. ERequest t False) (rev ts) @ effects w" "ts = [] \<or> hd ts = target"
        "hop_chain (bundle_redirect u False) 0 ts" by blast
    have "equal_fold (hostname t) (up_attestationBundleHost u)" if "t \<in> set ts" for t
    proof (cases "t \<in> set (tl ts)")
      case True
      with hop_chain_set [OF ts(3), of t] show ?thesis by (auto simp: bundle_redirect_def split: if_splits)
    next
      case False
      with that ts(2) assms show ?thesis by (cases ts) auto
    qed
    then have "filter (is_api_request u) (map (\<lambda>t. ERequest t False) (rev ts)) = []"
      by (auto simp: filter_empty_conv is_api_request_def)
    with ts(1) that(1) show ?thesis by (simp add: api_requests_def)
  qed
  then show ?thesis by (intro hoareI) blast+
qed

lemma read_all_api: "preserves (\<lambda>w. api_requests u w \<le> k) (read_all n s)"
  unfolding api_as_requests by (rule read_all_quiet)

lemma page_api:
  "hoare (\<lambda>w. api_requests u w \<le> k) (fetchAttestationPage lb u pageURL)
     (\<lambda>_ w. api_requests u w \<le> Suc k) (\<lambda>_ w. api_requests u w \<le> Suc k)"
  unfolding fetchAttestationPage_def
  by (rule hoare_bind [where R = "\<lambda>_ w. api_requests u w \<le> k"],
      rule hoare_wrap_any, (auto simp: newRequest_def intro!: hoare_ret hoare_fail split: option.split)[1],
      rule hoare_bind [OF hoare_wrap_any [OF api_one_request]], simp only: split_beta,
      rule hoare_if, rule hoare_fail, assumption, rule hoare_if, rule hoare_fail, assumption,
      rule hoare_bind [OF hoare_wrap_any [OF read_all_api]], rule hoare_if, rule hoare_fail, assumption,
      rule hoare_ret)

lemma attestation_page_api:
  "hoare (\<lambda>w. api_requests u w \<le> k) (attestation_page lb u pageURL seen)
     (\<lambda>_ w. api_requests u w \<le> Suc k) (\<lambda>_ w. api_requests u w \<le> Suc k)"
proof -
  have ctx: "hoare (\<lambda>w. api_requests u w \<le> k) ctx_check (\<lambda>_ w. api_requests u w \<le> k)
      (\<lambda>_ w. api_requests u w \<le> Suc k)"
    by (rule hoare_ctx_check) auto
  have tail: "preserves (\<lambda>w. api_requests u w \<le> Suc k)
     (case x of (urls, second) \<Rightarrow>
       (case ensureSingleJSONValue second d of Some e \<Rightarrow> fail e
        | None \<Rightarrow> if int (length urls) > int maxAttestations - int seen then fail e' else ret (urls, link)))" for x d e' link
    by (auto intro!: hoare_fail hoare_ret split: prod.split option.split)
  show ?thesis
    unfolding attestation_page_def
    by (rule hoare_then [OF ctx], rule hoare_bind [OF page_api], simp only: split_beta,
        rule hoare_bind [OF hoare_wrap_any [OF hoare_lift [where Q = "\<lambda>_ w. api_requests u w \<le> Suc k"]]],
        assumption, assumption) (use tail in \<open>simp only: split_beta\<close>)
qed

lemma fetchBundle_api:
  assumes law: "url_law (lb_url lb)"
  shows "preserves (\<lambda>w. api_requests u w \<le> k) (fetchAttestationBundle lb u rawURL)"
proof -
  let ?P = "\<lambda>w. api_requests u w \<le> k"
  let ?bhost = "\<lambda>t. equal_fold (hostname t) (up_attestationBundleHost u)"
  have failing: "hoare ?P (fail e) Q (\<lambda>_. ?P)" for e and Q :: "'x \<Rightarrow> world \<Rightarrow> bool"
    by (rule hoare_fail)
  have lift: "preserves ?P (liftE r)" for r :: "gerror + 'x" by (rule hoare_lift)
  have ask: "preserves ?P (askE f)" for f :: "world \<Rightarrow> 'x" by (rule hoare_ask)
  have check: "hoare ?P (liftE (check_bundle_url (lb_url lb) u rawURL))
      (\<lambda>parsed w. ?P w \<and> check_bundle_url (lb_url lb) u rawURL = Inr parsed) (\<lambda>_. ?P)"
    by (rule hoare_lift) auto
  have same: "?bhost t" if c: "check_bundle_url (lb_url lb) u rawURL = Inr parsed"
    and t: "url_parse (lb_url lb) (url_string (lb_url lb) parsed) = Some t" for parsed t
  proof -
    have "from_text (lb_url lb) parsed" "u_host parsed \<noteq> []" "?bhost parsed"
      using c by (auto simp: check_bundle_url_def from_text_def split: option.splits if_splits)
    with url_law_same [OF law this(1,2) t] show ?thesis by (simp add: hostname_def)
  qed
  have request: "hoare ?P (newRequest (lb_url lb) (url_string (lb_url lb) parsed))
      (\<lambda>t w. ?P w \<and> ?bhost t) (\<lambda>_. ?P)" if "check_bundle_url (lb_url lb) u rawURL = Inr parsed" for parsed
    using same [OF that] by (auto simp: newRequest_def intro!: hoare_ret hoare_fail split: option.split)
  have handler: "hoare ?P (bindE (askE ctx_err) (\<lambda>c. case c of Some ctxErr \<Rightarrow> fail ctxErr | None \<Rightarrow> fail e))
      Q (\<lambda>_. ?P)" for e and Q :: "'x \<Rightarrow> world \<Rightarrow> bool"
    by (rule hoare_bind [OF ask]) (auto intro: failing split: option.split)
  show ?thesis
    unfolding fetchAttestationBundle_def
    by (rule hoare_bind [OF check], rule hoare_fact, rule hoare_bind [OF hoare_wrap_any [OF request]],
        assumption, rule hoare_fact,
        rule hoare_bind [OF hoare_handle [OF bundle_no_api_request handler]], assumption, simp only: split_beta,
        rule hoare_if, rule failing, rule hoare_if, rule failing,
        rule hoare_bind [OF hoare_wrap_any [OF read_all_api]], rule hoare_if, rule failing, rule lift)
qed

lemma page_bundles_api:
  assumes law: "url_law (lb_url lb)"
    and v: "\<And>b req k. preserves (\<lambda>w. api_requests u w \<le> k) (v b req)"
  shows "preserves (\<lambda>w. api_requests u w \<le> k) (page_bundles lb u v rel asset urls failure)"
proof (induction urls arbitrary: failure)
  case Nil
  show ?case by (auto intro: hoare_ret)
next
  case (Cons url urls)
  have ctx: "preserves (\<lambda>w. api_requests u w \<le> k) ctx_check" by (rule ctx_check_local)
  have failing: "hoare (\<lambda>w. api_requests u w \<le> k) (fail e) Q (\<lambda>_ w. api_requests u w \<le> k)"
    for e and Q :: "'x \<Rightarrow> world \<Rightarrow> bool"
    by (rule hoare_fail)
  show ?case
    unfolding page_bundles.simps
    by (rule hoare_then [OF ctx], rule hoare_if, rule Cons, rule hoare_try [OF fetchBundle_api [OF law]],
        rule hoare_if, rule failing, rule Cons, rule hoare_try [OF v], rule hoare_if,
        rule failing, rule Cons) (auto intro: hoare_ret)
qed

lemma attestation_pages_api:
  assumes law: "url_law (lb_url lb)"
    and v: "\<And>b req k. preserves (\<lambda>w. api_requests u w \<le> k) (v b req)"
  shows "hoare (\<lambda>w. api_requests u w \<le> k) (attestation_pages lb u v rel asset n pageURL seen failure)
     (\<lambda>_ w. api_requests u w \<le> k + n) (\<lambda>_ w. api_requests u w \<le> k + n)"
proof (induction n arbitrary: k pageURL seen failure)
  case 0
  show ?case
    by (auto simp: attestation_pages.simps intro!: hoare_fail split: option.split)
next
  case (Suc n)
  let ?Q = "\<lambda>_ w. api_requests u w \<le> k + Suc n"
  show ?case
  proof (cases "pageURL = []")
    case True
    then show ?thesis
      by (auto simp: attestation_pages.simps intro!: hoare_fail split: option.split)
  next
    case False
    have step: "hoare (\<lambda>w. api_requests u w \<le> Suc k)
      (bindE (page_bundles lb u v rel asset urls failure)
         (\<lambda>outcome. case outcome of
            Inl record \<Rightarrow> ret record
          | Inr failure \<Rightarrow>
              bindE (liftE (nextAttestationPage (lb_url lb) pageURL link))
                (\<lambda>nxt. attestation_pages lb u v rel asset n nxt (seen + length urls) failure))) ?Q ?Q" for urls link
    proof (rule hoare_bind [where R = "\<lambda>_ w. api_requests u w \<le> Suc k"])
      show "hoare (\<lambda>w. api_requests u w \<le> Suc k) (page_bundles lb u v rel asset urls failure)
          (\<lambda>_ w. api_requests u w \<le> Suc k) ?Q"
        by (rule hoare_weaken [OF page_bundles_api [where k = "Suc k", OF law v]]) auto
      fix outcome
      have lift: "hoare (\<lambda>w. api_requests u w \<le> Suc k) (liftE r) (\<lambda>_ w. api_requests u w \<le> Suc k) ?Q"
        for r :: "gerror + string" by (rule hoare_lift) auto
      have rest: "hoare (\<lambda>w. api_requests u w \<le> Suc k) (attestation_pages lb u v rel asset n nxt s f) ?Q ?Q" for nxt s f
        using Suc [of "Suc k" nxt s f] by simp
      show "hoare (\<lambda>w. api_requests u w \<le> Suc k)
        (case outcome of
            Inl record \<Rightarrow> ret record
          | Inr failure \<Rightarrow>
              bindE (liftE (nextAttestationPage (lb_url lb) pageURL link))
                (\<lambda>nxt. attestation_pages lb u v rel asset n nxt (seen + length urls) failure)) ?Q ?Q"
      proof (cases outcome)
        case (Inl p)
        then show ?thesis by (auto intro: hoare_ret)
      next
        case (Inr f)
        show ?thesis unfolding Inr sum.case by (rule hoare_bind [OF lift rest])
      qed
    qed
    have page: "hoare (\<lambda>w. api_requests u w \<le> k) (attestation_page lb u pageURL seen)
        (\<lambda>_ w. api_requests u w \<le> Suc k) ?Q"
      by (rule hoare_weaken [OF attestation_page_api [where k = k]]) auto
    have eq: "attestation_pages lb u v rel asset (Suc n) pageURL seen failure =
        bindE (attestation_page lb u pageURL seen)
          (\<lambda>(urls, link).
             bindE (page_bundles lb u v rel asset urls failure)
               (\<lambda>outcome. case outcome of
                  Inl record \<Rightarrow> ret record
                | Inr failure \<Rightarrow>
                    bindE (liftE (nextAttestationPage (lb_url lb) pageURL link))
                      (\<lambda>nxt. attestation_pages lb u v rel asset n nxt (seen + length urls) failure)))"
      using False by (subst attestation_pages.simps) simp
    show ?thesis
      unfolding eq by (rule hoare_bind [OF page]) (simp only: split_beta, rule step)
  qed
qed

text \<open>C25 Verification sends at most three requests besides those to the bundles' host, with or without a token and
  whatever the servers answer, when the verifier itself sends none: the pages of the API are at most three, no redirect
  of them is followed, and every redirect of a bundle stays on the bundles' host.\<close>

theorem attestation_page_limit:
  assumes "url_law (lb_url lb)"
    and "\<And>b req k. preserves (\<lambda>w. api_requests u w \<le> k) (v b req)"
    and "verifyAttestation lb u v rel asset w = (r, w')"
  shows "api_requests u w' \<le> api_requests u w + 3"
proof -
  let ?Q = "\<lambda>_ w0. api_requests u w0 \<le> api_requests u w + 3"
  have "hoare (\<lambda>w0. api_requests u w0 \<le> api_requests u w) (verifyAttestation lb u v rel asset) ?Q ?Q"
    unfolding verifyAttestation_def
  proof (rule hoare_bind [where R = "\<lambda>_ w0. api_requests u w0 \<le> api_requests u w"])
    show "hoare (\<lambda>w0. api_requests u w0 \<le> api_requests u w)
        (attestation_pages lb u v rel asset maxAttestationPages p 0 None) ?Q ?Q" for p
      using attestation_pages_api [OF assms(1,2), where n = 3] by (simp add: maxAttestationPages_def)
  qed (rule hoare_lift; simp)
  from hoareD_ok [OF this _] hoareD_err [OF this _] assms(3) show ?thesis
    by (cases r) blast+
qed

theorem attestation_page_limit_witness:
  "\<exists>r w'. verifyAttestation sample_libs (sample_updater\<lparr>up_githubToken := []\<rparr>) (\<lambda>_ _. fail ErrEOF) no_release no_asset
       (empty_world\<lparr>replies := [answer ''page'', answer ''bundle'']\<rparr>) = (r, w')
     \<and> length (requests w') = 2
     \<and> api_requests (sample_updater\<lparr>up_githubToken := []\<rparr>) w' \<le> 3"
proof -
  let ?u = "sample_updater\<lparr>up_githubToken := []\<rparr>"
  let ?w = "empty_world\<lparr>replies := [answer ''page'', answer ''bundle'']\<rparr>"
  obtain r w' where run: "verifyAttestation sample_libs ?u (\<lambda>_ _. fail ErrEOF) no_release no_asset ?w = (r, w')"
    by (cases "verifyAttestation sample_libs ?u (\<lambda>_ _. fail ErrEOF) no_release no_asset ?w")
  have "length (requests (snd (verifyAttestation sample_libs ?u (\<lambda>_ _. fail ErrEOF) no_release no_asset ?w))) = 2"
    by code_simp
  moreover have "url_law (lb_url sample_libs)" by (simp add: sample_libs_def https_url_law)
  moreover have "api_requests ?u ?w = 0" by (simp add: api_requests_def empty_world_def)
  ultimately show ?thesis
    using attestation_page_limit [OF _ _ run] run by (auto intro: hoare_fail)
qed

section \<open>Bundles without a limit on redirects\<close>

lemma over_le: "\<not> over budget k \<Longrightarrow> j \<le> k \<Longrightarrow> \<not> over budget j"
  by (auto simp: over_def split: option.splits)

lemma client_hops_repeated:
  assumes allowed: "\<And>via. check via t = None"
  shows "script w = [] \<Longrightarrow> ctx_err w = None \<Longrightarrow> replies w = replicate n (Redirect t d) @ [Response r] \<Longrightarrow>
    \<not> over budget (el + n * d + r_delay r) \<Longrightarrow>
    \<exists>w'. client_hops check auth budget late el via t w = (Inr (r, el + n * d + r_delay r), w')
      \<and> requests w' = replicate (Suc n) (ERequest t auth) @ requests w"
proof (induction n arbitrary: w via el)
  case 0
  then show ?case
    by (simp add: client_hops.simps [of check] send_def syscall_def next_step_def quiet_step_def Let_def requests_def)
next
  case (Suc n)
  let ?w = "(emit (ERequest t auth) w)\<lparr>replies := replicate n (Redirect t d) @ [Response r]\<rparr>"
  have "send auth t w = (Inr (Redirect t d), ?w)"
    using Suc.prems by (simp add: send_def syscall_def next_step_def quiet_step_def Let_def)
  moreover have "\<not> over budget (el + d)" by (rule over_le [OF Suc.prems(4)]) simp
  ultimately have step: "client_hops check auth budget late el via t w =
      client_hops check auth budget late (el + d) (Suc via) t ?w"
    using allowed by (simp add: client_hops.simps [of check auth budget late el via])
  have "\<not> over budget (el + d + n * d + r_delay r)"
    using Suc.prems(4) by (simp add: algebra_simps)
  moreover have "requests ?w = ERequest t auth # requests w" by (simp add: requests_def)
  ultimately show ?case
    using Suc.IH [of ?w "el + d" "Suc via"] Suc.prems
    by (simp add: step algebra_simps replicate_app_Cons_same)
qed

text \<open>C39 A bundle download follows any number of redirects: unlike asset downloads its policy has no limit of its
  own, so a server that redirects to an acceptable address is asked again and again, as long as the answers fit in the
  client's timeout, or for ever when the client has none.\<close>

theorem bundle_redirects_unlimited:
  assumes "check_bundle_url (lb_url lb) u rawURL = Inr parsed"
    and "url_parse (lb_url lb) (url_string (lb_url lb) parsed) = Some t"
    and "bundle_redirect u False 0 t = None"
    and "script w = []" and "ctx_err w = None" and "replies w = replicate n (Redirect t d) @ [Response r]"
    and "\<not> over (client_timeout u) (n * d + r_delay r)"
  shows "requests (snd (fetchAttestationBundle lb u rawURL w)) = replicate (Suc n) (ERequest t False) @ requests w"
proof -
  have allowed: "bundle_redirect u False via t = None" for via
    using assms(3) by (simp add: bundle_redirect_def)
  obtain w1 where w1: "client_do (bundle_redirect u False) False (client_timeout u) CtxDeadlineExceeded t w =
      (Inr (r, n * d + r_delay r), w1)" "requests w1 = replicate (Suc n) (ERequest t False) @ requests w"
    using client_hops_repeated [of "bundle_redirect u False" t w n d r "client_timeout u" 0 False CtxDeadlineExceeded 0]
      allowed assms(4-7)
    by (auto simp: client_do_def)
  let ?X = "replicate (Suc n) (ERequest t False) @ requests w"
  have body: "preserves (\<lambda>w. requests w = ?X)
      (if bad_status r then fail e1
       else if r_content_length r > maxCompressedBundleSize then fail e2
       else bindE (wrapE f a (read_all m s))
         (\<lambda>compressed. if int (length compressed) > maxCompressedBundleSize then fail e3
            else liftE (decode_bundle (lb_snappy lb) compressed)))" for e1 e2 e3 f a m s
    by (rule hoare_if, rule hoare_fail, assumption, rule hoare_if, rule hoare_fail, assumption,
        rule hoare_bind [OF hoare_wrap_any [OF read_all_quiet]], rule hoare_if, rule hoare_fail, assumption,
        rule hoare_lift)
  have "requests (snd (fetchAttestationBundle lb u rawURL w)) = ?X"
    unfolding fetchAttestationBundle_def assms(1)
    using hoare_snd [OF body w1(2)] assms(2) w1(1)
    by (simp add: bindE_def liftE_def newRequest_def wrapE_def [of "''selfupdate: create attestation bundle request: %w''"]
        handleE_def ret_def)
  then show ?thesis .
qed

theorem bundle_redirects_unlimited_witness:
  "requests (snd (fetchAttestationBundle sample_libs sample_updater ''https://tmaproduction.blob.core.windows.net/b''
      (empty_world\<lparr>replies := replicate 1000 (Redirect (sample_url ''tmaproduction.blob.core.windows.net'' ''/b'' []) 50)
         @ [answer ''bundle'']\<rparr>)))
   = replicate 1001 (ERequest (sample_url ''tmaproduction.blob.core.windows.net'' ''/b'' []) False)"
proof -
  let ?t = "sample_url ''tmaproduction.blob.core.windows.net'' ''/b'' []"
  obtain r where r: "answer ''bundle'' = Response r" "r_delay r = 5" by (simp add: answer_def)
  let ?w = "empty_world\<lparr>replies := replicate 1000 (Redirect ?t 50) @ [answer ''bundle'']\<rparr>"
  have c: "check_bundle_url (lb_url sample_libs) sample_updater ''https://tmaproduction.blob.core.windows.net/b'' = Inr ?t"
    "url_parse (lb_url sample_libs) (url_string (lb_url sample_libs) ?t) = Some ?t"
    "bundle_redirect sample_updater False 0 ?t = None" "client_timeout sample_updater = Some 60000"
    by code_simp+
  have w: "script ?w = []" "ctx_err ?w = None" "requests ?w = []"
    "replies ?w = replicate 1000 (Redirect ?t 50) @ [Response r]"
    by (simp_all add: empty_world_def requests_def r)
  have "\<not> over (client_timeout sample_updater) (1000 * 50 + r_delay r)"
    unfolding c(4) r(2) by (simp add: over_def)
  from bundle_redirects_unlimited [OF c(1-3) w(1,2,4) this] show ?thesis unfolding w(3) by simp
qed

section \<open>Workflows and pages\<close>

text \<open>C28 An accepted signer workflow is one file directly in \<^verbatim>\<open>.github/workflows\<close>, with a non-empty name ending in .yml or
  .yaml and without separators, white space or control characters, so the signer identity built from it names one file.\<close>

theorem workflow_accepted:
  assumes "validateAttestationWorkflow s = None"
  shows "\<exists>name. s = ''.github/workflows/'' @ name \<and> length s \<le> 255
    \<and> set name \<inter> {CHR ''/'', CHR 0x5C, CHR '':''} = {}
    \<and> (\<forall>r \<in> set (runes name). \<not> is_space_rune r \<and> \<not> is_control_rune r)
    \<and> (\<exists>base. base \<noteq> [] \<and> (name = base @ ''.yml'' \<or> name = base @ ''.yaml''))"
proof -
  let ?name = "trim_prefix s workflow_prefix"
  have a: "length s \<le> 255" "has_prefix s workflow_prefix"
    using assms by (auto simp: validateAttestationWorkflow_def split: if_splits)
  have b: "?name \<noteq> []"
    "\<not> contains_any ?name [CHR ''/'', CHR 0x5C, CHR '':'', CHR 0x00, CHR 0x0D, CHR 0x0A, CHR 0x09]"
    "\<not> list_ex (\<lambda>r. is_space_rune r \<or> is_control_rune r) (runes ?name)"
    "has_suffix ?name ''.yml'' \<or> has_suffix ?name ''.yaml''"
    "trim_suffix (trim_suffix ?name ''.yaml'') ''.yml'' \<noteq> []"
    using assms by (auto simp: validateAttestationWorkflow_def Let_def split: if_splits)
  have name: "s = workflow_prefix @ ?name"
    using a(2) by (auto simp: has_prefix_iff)
  have "\<exists>base. base \<noteq> [] \<and> (?name = base @ ''.yml'' \<or> ?name = base @ ''.yaml'')"
    using b(4)
  proof
    assume "has_suffix ?name ''.yml''"
    then obtain base where base: "?name = base @ ''.yml''" by (auto simp: has_suffix_iff)
    have "\<not> has_suffix (base @ ''.yml'') ''.yaml''" by (auto simp: has_suffix_def has_prefix_def)
    with b(5) base have "base \<noteq> []" by (auto simp: trim_suffix_def has_suffix_def has_prefix_def)
    with base show ?thesis by blast
  next
    assume "has_suffix ?name ''.yaml''"
    then obtain base where base: "?name = base @ ''.yaml''" by (auto simp: has_suffix_iff)
    with b(5) have "base \<noteq> []" by (auto simp: trim_suffix_def has_suffix_def has_prefix_def)
    with base show ?thesis by blast
  qed
  moreover have "set ?name \<inter> {CHR ''/'', CHR 0x5C, CHR '':''} = {}"
    using b(2) by (auto simp: contains_any_iff)
  ultimately show ?thesis
    using name a(1) b(3) by (intro exI [of _ ?name]) (auto simp: list_ex_iff workflow_prefix_def)
qed

theorem workflow_accepted_witness:
  "\<exists>name. ''.github/workflows/release.yml'' = ''.github/workflows/'' @ name \<and> (\<exists>base. base \<noteq> []
     \<and> (name = base @ ''.yml'' \<or> name = base @ ''.yaml''))"
proof -
  have "validateAttestationWorkflow ''.github/workflows/release.yml'' = None" by code_simp
  from workflow_accepted [OF this] show ?thesis by blast
qed

text \<open>C24 A next-page link is followed only to the scheme, host and path (also as escaped) of the current page, without
  user information, fragment or opaque part, with the predicate type and the page size of the first request and a cursor
  that is not empty, each with one value, and no other parameter.\<close>

theorem next_page_same_endpoint:
  assumes "nextAttestationPage ul current link = Inr nxt" "nxt \<noteq> []"
  shows "same_endpoint ul current nxt"
  using assms by (rule nextAttestationPage_safe)

text \<open>A page of the API with its predicate type, page size and, for the next page, a cursor.\<close>

definition page_url :: "string \<Rightarrow> string" where
  "page_url cursor =
     ''https://api.github.com/a?predicate_type='' @ query_escape attestationPredicate @ ''&per_page=100'' @ cursor"

theorem next_page_same_endpoint_witness:
  "nextAttestationPage https_url (page_url [])
     (''<'' @ page_url ''&before=xyz'' @ ''>; rel='' @ [CHR 0x22] @ ''next'' @ [CHR 0x22]) = Inr (page_url ''&before=xyz'')
   \<and> same_endpoint https_url (page_url []) (page_url ''&before=xyz'')"
proof
  show n: "nextAttestationPage https_url (page_url [])
     (''<'' @ page_url ''&before=xyz'' @ ''>; rel='' @ [CHR 0x22] @ ''next'' @ [CHR 0x22]) = Inr (page_url ''&before=xyz'')"
    by code_simp
  have "page_url ''&before=xyz'' \<noteq> []" by (simp add: page_url_def)
  from next_page_same_endpoint [OF n this] show "same_endpoint https_url (page_url []) (page_url ''&before=xyz'')" .
qed

end
