(* ===== verification/Install.thy ===== *)
theory Install
  imports Archive Hex
begin

text \<open>
  Temporary files and staging (install.go): random names beside the target, exclusive creation
  with retries, the sweep of files a killed process left behind, and \<^verbatim>\<open>stageExecutable\<close>, which
  extracts the command into a stage file and makes it executable only when it is complete. The
  operations that differ between Unix and Windows are the fields of \<open>platform\<close>; the theories
  Replace_Unix, Replace_Windows and Lock define them.
\<close>

record replacementResult =
  committed :: bool
  cleanupPending :: bool

record platform =
  pf_replace :: "path \<Rightarrow> path \<Rightarrow> (replacementResult \<times> gerror option) prog"
  pf_cleanupStaleBackups :: "path \<Rightarrow> (bool \<times> gerror option) prog"
  pf_syncDirectory :: "string \<Rightarrow> unit io"
  pf_acquireFileLock :: "path \<Rightarrow> world \<Rightarrow> ((gerror + os_file) \<times> world) option"
  pf_release :: "os_file option \<Rightarrow> unit io"

definition stageRandomLength :: nat where
  "stageRandomLength = 32"

section \<open>Names of temporary files\<close>

definition temp_prefix :: "path \<Rightarrow> string \<Rightarrow> string" where
  "temp_prefix target infx = ''.'' @ base_of target @ ''.selfupdate-'' @ infx @ ''-''"

definition temp_path :: "path \<Rightarrow> string \<Rightarrow> bytes \<Rightarrow> path" where
  "temp_path target infx random =
     Path (dir_of target) (temp_prefix target infx @ hex_encode random)"

text \<open>The test of \<^verbatim>\<open>cleanupStaleFiles\<close> (and of \<^verbatim>\<open>cleanupStaleBackups\<close>) on a directory entry's name.\<close>

definition stale_name :: "path \<Rightarrow> string \<Rightarrow> string \<Rightarrow> bool" where
  "stale_name target infx name \<longleftrightarrow>
     (let p = temp_prefix target infx in
      has_prefix name p \<and> length name = length p + stageRandomLength
      \<and> isLowerHex (drop (length p) name))"

section \<open>Creating a file\<close>

fun create_random_loop :: "path \<Rightarrow> string \<Rightarrow> nat \<Rightarrow> os_file io" where
  "create_random_loop target infx 0 = fail (Errorf ''could not create a unique %s name'' [AStr infx])"
| "create_random_loop target infx (Suc attempts) =
     bindE (wrapE ''create random %s name: %w'' [AStr infx] (rand_read 16))
       (\<lambda>random.
          handleE (os_open_excl (temp_path target infx random))
            (\<lambda>e. if \<not> errors_is e ErrExist then fail e
                  else create_random_loop target infx attempts))"

definition createRandomFile :: "path \<Rightarrow> string \<Rightarrow> os_file io" where
  "createRandomFile target infx = create_random_loop target infx 10"

definition createStageFile :: "path \<Rightarrow> os_file io" where
  "createStageFile target = createRandomFile target ''stage''"

definition createArchiveFile :: "path \<Rightarrow> os_file io" where
  "createArchiveFile target = createRandomFile target ''archive''"

section \<open>The sweep\<close>

fun cleanup_entries :: "path \<Rightarrow> string \<Rightarrow> (string \<times> node_kind) list \<Rightarrow> unit io" where
  "cleanup_entries target infx [] = ret ()"
| "cleanup_entries target infx ((name, kind) # entries) =
     (if \<not> stale_name target infx name then cleanup_entries target infx entries
      else if kind = Symlink \<or> kind = Directory then cleanup_entries target infx entries
      else thenE
        (handleE (os_remove (Path (dir_of target) name))
          (\<lambda>e. if errors_is e ErrNotExist then ret () else fail e))
        (cleanup_entries target infx entries))"

definition cleanupStaleFiles :: "path \<Rightarrow> string \<Rightarrow> unit io" where
  "cleanupStaleFiles target infx =
     bindE (os_read_dir (dir_of target)) (cleanup_entries target infx)"

definition cleanupStaleStages :: "path \<Rightarrow> unit io" where
  "cleanupStaleStages target = cleanupStaleFiles target ''stage''"

definition cleanupStaleArchives :: "path \<Rightarrow> unit io" where
  "cleanupStaleArchives target = cleanupStaleFiles target ''archive''"

section \<open>Staging\<close>

text \<open>
  The body after the stage file exists, up to \<^verbatim>\<open>remove = false\<close>. \<^verbatim>\<open>mode.Perm()\<close> keeps the nine
  permission bits.
\<close>

definition stage_body ::
  "archive_lib \<Rightarrow> platform \<Rightarrow> path \<Rightarrow> nat \<Rightarrow> string \<Rightarrow> os_file \<Rightarrow> int \<Rightarrow> string \<Rightarrow> os_file \<Rightarrow> path io"
where
  "stage_body lib pf target mode assetName archive archiveSize memberName f =
     bindE (extractArchive lib assetName archive archiveSize memberName (os_write f))
       (\<lambda>written.
          if written \<le> 0 then fail (ErrorString ''refusing to stage an empty executable'')
          else thenE ctx_check
            (thenE (os_sync f)
              (thenE (os_chmod f (mode mod 512))
                (thenE (os_close f)
                  (thenE (pf_syncDirectory pf (dir_of target)) (ret (f_path f)))))))"

text \<open>
  The deferred function closes the file and, unless staging succeeded, removes it; both errors
  are dropped.
\<close>

definition stageExecutable ::
  "archive_lib \<Rightarrow> platform \<Rightarrow> path \<Rightarrow> nat \<Rightarrow> string \<Rightarrow> os_file \<Rightarrow> int \<Rightarrow> string \<Rightarrow> path io" where
  "stageExecutable lib pf target mode assetName archive archiveSize memberName =
     thenE ctx_check
       (bindE (createStageFile target)
         (\<lambda>f. deferE
            (stage_body lib pf target mode assetName archive archiveSize memberName f)
            (os_close f) (os_remove (f_path f))))"

section \<open>Which names are temporary\<close>

text \<open>Names in the target's directory that begin as the temporary files of the target do.\<close>

definition is_temp :: "path \<Rightarrow> path \<Rightarrow> bool" where
  "is_temp target p \<longleftrightarrow>
     dir_of p = dir_of target \<and> has_prefix (base_of p) (''.'' @ base_of target @ ''.selfupdate-'')"

lemma is_temp_temp_path [simp]: "is_temp target (temp_path target infx r)"
  by (simp add: is_temp_def temp_path_def temp_prefix_def has_prefix_def)

lemma target_not_temp [simp]: "\<not> is_temp target target"
  by (auto simp: is_temp_def has_prefix_def dest!: arg_cong [where f = length])

lemma stale_name_iff:
  "stale_name target infx name \<longleftrightarrow>
     (\<exists>h. name = temp_prefix target infx @ h \<and> length h = 32 \<and> isLowerHex h)"
  by (auto simp: stale_name_def Let_def has_prefix_iff stageRandomLength_def)

lemma stale_name_temp:
  "stale_name target infx name \<Longrightarrow> is_temp target (Path (dir_of target) name)"
  by (auto simp: stale_name_iff is_temp_def temp_prefix_def has_prefix_def)

lemma temp_path_stale:
  "length r = 16 \<Longrightarrow> stale_name target infx (base_of (temp_path target infx r))"
  by (simp add: stale_name_iff temp_path_def)

section \<open>Creation and staging, for every environment that leaves temporary names alone\<close>

text \<open>Names of \<open>S\<close> that are not temporary names of the target.\<close>

abbreviation outer :: "(path \<Rightarrow> bool) \<Rightarrow> path \<Rightarrow> path \<Rightarrow> bool" where
  "outer S target \<equiv> (\<lambda>q. S q \<and> \<not> is_temp target q)"

lemma create_random_rule:
  assumes S: "\<And>p. is_temp target p \<Longrightarrow> S p" and A: "local_to S A"
    and B: "\<And>p w w'. is_temp target p \<Longrightarrow> A w \<Longrightarrow> lookup w p = None \<Longrightarrow>
      same_on (except S p) w w' \<Longrightarrow> B p w'"
  shows "hoare (\<lambda>w. stable_env S w \<and> A w) (createRandomFile target infx)
    (\<lambda>f w. stable_env S w \<and> B (f_path f) w \<and> is_temp target (f_path f)
       \<and> stale_name target infx (base_of (f_path f)) \<and> file_at f (plain_node [] 384) w)
    (\<lambda>_ w. stable_env S w \<and> A w)"
proof -
  have "hoare (\<lambda>w. stable_env S w \<and> A w) (create_random_loop target infx n)
    (\<lambda>f w. stable_env S w \<and> B (f_path f) w \<and> is_temp target (f_path f)
       \<and> stale_name target infx (base_of (f_path f)) \<and> file_at f (plain_node [] 384) w)
    (\<lambda>_ w. stable_env S w \<and> A w)" for n
  proof (induction n)
    case 0
    show ?case by (auto intro: hoare_fail)
  next
    case (Suc n)
    show ?case
      unfolding create_random_loop.simps
    proof (rule hoare_bind [OF hoare_wrap_any [OF rand_read_rule [OF A]]])
      fix r :: bytes
      let ?p = "temp_path target infx r"
      show "hoare (\<lambda>w. stable_env S w \<and> A w \<and> length r = 16)
         (handleE (os_open_excl ?p)
           (\<lambda>e. if \<not> errors_is e ErrExist then fail e else create_random_loop target infx n))
         (\<lambda>f w. stable_env S w \<and> B (f_path f) w \<and> is_temp target (f_path f)
            \<and> stale_name target infx (base_of (f_path f)) \<and> file_at f (plain_node [] 384) w)
         (\<lambda>_ w. stable_env S w \<and> A w)"
      proof (cases "length r = 16")
        case True
        have opn: "hoare (\<lambda>w. stable_env S w \<and> A w) (os_open_excl ?p)
           (\<lambda>f w. stable_env S w \<and> B (f_path f) w \<and> is_temp target (f_path f)
              \<and> stale_name target infx (base_of (f_path f)) \<and> file_at f (plain_node [] 384) w)
           (\<lambda>_ w. stable_env S w \<and> A w)"
          by (rule hoare_weaken [OF os_open_excl_rule [where B = "B ?p", OF _ A]])
            (use S B temp_path_stale [OF True] in auto)
        show ?thesis
          by (rule hoare_pre [OF hoare_handle [OF opn]])
            (auto intro: hoare_fail Suc)
      qed (simp add: hoare_def)
    qed
  qed
  then show ?thesis by (simp add: createRandomFile_def)
qed

text \<open>The stage file as a destination for extraction.\<close>

definition sink_inv ::
  "(path \<Rightarrow> bool) \<Rightarrow> (world \<Rightarrow> bool) \<Rightarrow> os_file \<Rightarrow> node \<Rightarrow> os_file \<Rightarrow> node \<Rightarrow> bytes \<Rightarrow> world \<Rightarrow> bool"
where
  "sink_inv S A ar an f nd acc w \<longleftrightarrow>
     S (f_path f) \<and> S (f_path ar) \<and> f_path ar \<noteq> f_path f \<and> local_to (except S (f_path f)) A
     \<and> stable_env S w \<and> A w \<and> file_at ar an w \<and> file_at f (nd\<lparr>n_content := acc\<rparr>) w"

definition sink_bad ::
  "(path \<Rightarrow> bool) \<Rightarrow> (world \<Rightarrow> bool) \<Rightarrow> os_file \<Rightarrow> node \<Rightarrow> os_file \<Rightarrow> node \<Rightarrow> world \<Rightarrow> bool" where
  "sink_bad S A ar an f nd w \<longleftrightarrow> (\<exists>acc. sink_inv S A ar an f nd acc w)"

lemma sink_badI: "sink_inv S A ar an f nd acc w \<Longrightarrow> sink_bad S A ar an f nd w"
  by (auto simp: sink_bad_def)

text \<open>The conditions on the names, apart from the assertion itself.\<close>

definition sink_ok :: "(path \<Rightarrow> bool) \<Rightarrow> (world \<Rightarrow> bool) \<Rightarrow> os_file \<Rightarrow> os_file \<Rightarrow> bool" where
  "sink_ok S A ar f \<longleftrightarrow>
     S (f_path f) \<and> S (f_path ar) \<and> f_path ar \<noteq> f_path f \<and> local_to (except S (f_path f)) A"

lemma sink_inv_iff:
  "sink_inv S A ar an f nd acc w \<longleftrightarrow>
     sink_ok S A ar f \<and> stable_env S w \<and> A w \<and> file_at ar an w
     \<and> file_at f (nd\<lparr>n_content := acc\<rparr>) w"
  by (auto simp: sink_inv_def sink_ok_def)

lemma sink_keeps:
  assumes "\<And>A. local_to S A \<Longrightarrow> preserves (\<lambda>w. stable_env S w \<and> A w) m"
  shows "preserves (sink_inv S A ar an f nd acc) m"
proof (cases "sink_ok S A ar f")
  case False
  then show ?thesis by (simp add: hoare_def sink_inv_iff)
next
  case True
  let ?B = "\<lambda>w. A w \<and> file_at ar an w \<and> file_at f (nd\<lparr>n_content := acc\<rparr>) w"
  have "local_to S ?B"
    using True local_except [of S "f_path f" A]
    by (intro local_to_conj local_file_at) (simp_all add: sink_ok_def)
  then have "preserves (\<lambda>w. stable_env S w \<and> ?B w) m" by (rule assms)
  moreover have "sink_inv S A ar an f nd acc = (\<lambda>w. stable_env S w \<and> ?B w)"
    using True by (simp add: fun_eq_iff sink_inv_iff)
  ultimately show ?thesis by (simp only:)
qed

lemma sink_call:
  assumes "\<And>A. local_to S A \<Longrightarrow> preserves (\<lambda>w. stable_env S w \<and> A w) m"
  shows "hoare (sink_inv S A ar an f nd acc) m (\<lambda>_. sink_inv S A ar an f nd acc)
    (\<lambda>_. sink_bad S A ar an f nd)"
  by (rule hoare_weaken [OF sink_keeps [OF assms]]) (assumption | erule sink_badI)+

lemma syscall_ret_local:
  "local_to S A \<Longrightarrow> preserves (\<lambda>w. stable_env S w \<and> A w) (syscall (ret a))"
  by (rule hoare_pure_call) (simp_all add: ret_def)

text \<open>A failed write has appended a prefix of the chunk.\<close>

lemma sink_write_prefix:
  "hoare (sink_inv S A ar an f nd acc) (os_write f bs) (\<lambda>_. sink_inv S A ar an f nd (acc @ bs))
    (\<lambda>_ w. \<exists>k. sink_inv S A ar an f nd (acc @ take k bs) w)"
proof (cases "sink_ok S A ar f")
  case False
  then show ?thesis by (simp add: hoare_def sink_inv_iff)
next
  case True
  then have "local_to (except S (f_path f)) (\<lambda>w. A w \<and> file_at ar an w)" "S (f_path f)"
    by (auto simp: sink_ok_def)
  from os_write_rule [OF this(2,1), of "nd\<lparr>n_content := acc\<rparr>" bs] show ?thesis
    by (rule hoare_weaken) (use True in \<open>auto simp: sink_inv_iff\<close>)
qed

lemma sink_write:
  "hoare (sink_inv S A ar an f nd acc) (os_write f bs) (\<lambda>_. sink_inv S A ar an f nd (acc @ bs))
    (\<lambda>_. sink_bad S A ar an f nd)"
  by (rule hoare_weaken [OF sink_write_prefix]) (auto intro: sink_badI)

lemma sink_reads:
  "hoare (sink_inv S A ar an f nd acc) (os_content ar)
     (\<lambda>bs w. sink_inv S A ar an f nd acc w \<and> bs = n_content an) (\<lambda>_. sink_inv S A ar an f nd acc)"
proof (cases "sink_ok S A ar f")
  case False
  then show ?thesis by (simp add: hoare_def sink_inv_iff)
next
  case True
  then have l: "local_to S (\<lambda>w. A w \<and> file_at f (nd\<lparr>n_content := acc\<rparr>) w)"
    using local_except [of S "f_path f" A]
    by (intro local_to_conj local_file_at) (simp_all add: sink_ok_def)
  from True have "S (f_path ar)" by (simp add: sink_ok_def)
  from os_content_rule [OF this l, of an] show ?thesis
    by (rule hoare_weaken) (use True in \<open>auto simp: sink_inv_iff\<close>)
qed

lemma sink_content:
  "hoare (sink_inv S A ar an f nd acc) (os_content ar)
     (\<lambda>bs w. sink_inv S A ar an f nd acc w \<and> bs = n_content an) (\<lambda>_. sink_bad S A ar an f nd)"
  by (rule hoare_weaken [OF sink_reads]) (assumption | erule sink_badI)+

interpretation stage_sink: safe_extraction
  "os_write f" "sink_inv S A ar an f nd" "sink_bad S A ar an f nd" ar "n_content an"
  for S A ar an f nd
proof
qed (assumption | rule sink_write sink_content sink_call syscall_ret_local ctx_check_local sink_badI)+

text \<open>
  The same destination with the bound on its size: no write brings the file above the limit on
  binaries by more than the one byte that detects an oversized member.
\<close>

definition bounded_inv ::
  "(path \<Rightarrow> bool) \<Rightarrow> (world \<Rightarrow> bool) \<Rightarrow> os_file \<Rightarrow> node \<Rightarrow> os_file \<Rightarrow> node \<Rightarrow> bytes \<Rightarrow> world \<Rightarrow> bool"
where
  "bounded_inv S A ar an f nd acc w \<longleftrightarrow>
     sink_inv S A ar an f nd acc w \<and> int (length acc) \<le> maxBinaryBytes + 1"

definition bounded_bad ::
  "(path \<Rightarrow> bool) \<Rightarrow> (world \<Rightarrow> bool) \<Rightarrow> os_file \<Rightarrow> node \<Rightarrow> os_file \<Rightarrow> node \<Rightarrow> world \<Rightarrow> bool" where
  "bounded_bad S A ar an f nd w \<longleftrightarrow> (\<exists>acc. bounded_inv S A ar an f nd acc w)"

lemma bounded_badI: "bounded_inv S A ar an f nd acc w \<Longrightarrow> bounded_bad S A ar an f nd w"
  by (auto simp: bounded_bad_def)

lemma bounded_call:
  assumes "\<And>A. local_to S A \<Longrightarrow> preserves (\<lambda>w. stable_env S w \<and> A w) m"
  shows "hoare (bounded_inv S A ar an f nd acc) m (\<lambda>_. bounded_inv S A ar an f nd acc)
    (\<lambda>_. bounded_bad S A ar an f nd)"
proof (cases "int (length acc) \<le> maxBinaryBytes + 1")
  case False
  then show ?thesis by (simp add: hoare_def bounded_inv_def)
next
  case True
  have "preserves (sink_inv S A ar an f nd acc) m" by (rule sink_keeps [OF assms])
  then show ?thesis
    by (rule hoare_weaken) (use True bounded_badI in \<open>auto simp: bounded_inv_def\<close>)
qed

lemma bounded_write:
  assumes "int (length (acc @ bs)) \<le> maxBinaryBytes + 1"
  shows "hoare (bounded_inv S A ar an f nd acc) (os_write f bs) (\<lambda>_. bounded_inv S A ar an f nd (acc @ bs))
    (\<lambda>_. bounded_bad S A ar an f nd)"
proof (rule hoare_weaken [OF sink_write_prefix])
  fix e w
  assume "\<exists>k. sink_inv S A ar an f nd (acc @ take k bs) w"
  then obtain k where "sink_inv S A ar an f nd (acc @ take k bs) w" by blast
  moreover have "int (length (acc @ take k bs)) \<le> maxBinaryBytes + 1"
    using assms by simp
  ultimately show "bounded_bad S A ar an f nd w"
    by (intro bounded_badI) (simp only: bounded_inv_def)
qed (use assms in \<open>simp_all add: bounded_inv_def\<close>)

lemma bounded_content:
  "hoare (bounded_inv S A ar an f nd acc) (os_content ar)
     (\<lambda>bs w. bounded_inv S A ar an f nd acc w \<and> bs = n_content an) (\<lambda>_. bounded_bad S A ar an f nd)"
proof (cases "int (length acc) \<le> maxBinaryBytes + 1")
  case False
  then show ?thesis by (simp add: hoare_def bounded_inv_def)
next
  case True
  show ?thesis
    by (rule hoare_weaken [OF sink_reads]) (use True bounded_badI in \<open>auto simp: bounded_inv_def\<close>)
qed

interpretation bounded_sink: safe_extraction
  "os_write f" "bounded_inv S A ar an f nd" "bounded_bad S A ar an f nd" ar "n_content an"
  for S A ar an f nd
proof
qed (assumption | rule bounded_write bounded_content bounded_call syscall_ret_local ctx_check_local bounded_badI)+

lemma archive_select_size:
  "archive_select lib asset content asz m = Some d \<Longrightarrow> 0 < length d \<and> int (length d) \<le> maxBinaryBytes"
  by (auto simp: archive_select_def tar_select_def zip_select_def tar_member_def zip_member_def Let_def
      split: if_splits sum.splits list.splits)

text \<open>
  A finished stage file: the selected member's bytes, with the given permissions. A file left by a failed staging is not executable, or it is complete.
\<close>

definition staged ::
  "archive_lib \<Rightarrow> string \<Rightarrow> bytes \<Rightarrow> int \<Rightarrow> string \<Rightarrow> nat \<Rightarrow> node \<Rightarrow> bool" where
  "staged lib asset content asz m mode nd \<longleftrightarrow>
     (\<exists>d. archive_select lib asset content asz m = Some d \<and> 0 < length d
        \<and> nd = plain_node d mode)"

definition safe_leftover ::
  "archive_lib \<Rightarrow> string \<Rightarrow> bytes \<Rightarrow> int \<Rightarrow> string \<Rightarrow> node \<Rightarrow> bool" where
  "safe_leftover lib asset content asz m nd \<longleftrightarrow>
     n_perm nd = 384 \<or> archive_select lib asset content asz m = Some (n_content nd)"

definition is_stage :: "path \<Rightarrow> path \<Rightarrow> bool" where
  "is_stage target p \<longleftrightarrow> dir_of p = dir_of target \<and> stale_name target ''stage'' (base_of p)"

text \<open>
  Every stage file of the target, but the one at \<open>q\<close>, is a safe leftover or one of the \<open>old\<close> nodes.
\<close>

definition stages_safe ::
  "archive_lib \<Rightarrow> string \<Rightarrow> bytes \<Rightarrow> int \<Rightarrow> string \<Rightarrow> (path \<Rightarrow> node \<Rightarrow> bool) \<Rightarrow> path \<Rightarrow> path option \<Rightarrow>
   world \<Rightarrow> bool" where
  "stages_safe lib asset content asz m old target q w \<longleftrightarrow>
     (\<forall>p nd. is_stage target p \<and> Some p \<noteq> q \<and> node_at w p = Some nd \<longrightarrow>
        old p nd \<or> safe_leftover lib asset content asz m nd)"

lemma is_stage_temp: "is_stage target p \<Longrightarrow> is_temp target p"
  using stale_name_temp [of target "''stage''" "base_of p"]
  by (cases p) (simp add: is_stage_def)

lemma local_stages:
  assumes "\<And>p. is_temp target p \<Longrightarrow> S p"
  shows "local_to S (stages_safe lib asset content asz m old target q)"
  unfolding local_to_def same_on_def stages_safe_def
  using assms is_stage_temp by metis

lemma local_stages_except:
  assumes "\<And>p. is_temp target p \<Longrightarrow> S p"
  shows "local_to (except S q) (stages_safe lib asset content asz m old target (Some q))"
  unfolding local_to_def same_on_def stages_safe_def
  using assms is_stage_temp by (metis option.inject)

lemma stages_safe_Some:
  "stages_safe lib asset content asz m old target (Some q) w \<Longrightarrow>
   (\<And>nd. node_at w q = Some nd \<Longrightarrow> safe_leftover lib asset content asz m nd) \<Longrightarrow>
   stages_safe lib asset content asz m old target None w"
  unfolding stages_safe_def by (metis option.inject option.distinct(1))

lemma blind_stages: "effect_blind (stages_safe lib asset content asz m old target q)"
  by (simp add: effect_blind_def stages_safe_def)

text \<open>
  What staging needs of the platform: syncing a directory disturbs no name and performs no
  effect.
\<close>

locale staging_platform =
  fixes pf :: platform
  assumes sync_local: "local_to S A \<Longrightarrow> preserves (\<lambda>w. stable_env S w \<and> A w) (pf_syncDirectory pf d)"

context staging_platform
begin

text \<open>The calls after extraction, for a complete file.\<close>

lemma stage_finish:
  assumes ok: "sink_ok S A ar f" and blind: "effect_blind A"
  shows "hoare (\<lambda>w. stable_env S w \<and> (A w \<and> file_at ar an w) \<and> file_at f nd w)
     (thenE ctx_check (thenE (os_sync f) (thenE (os_chmod f mode) (thenE (os_close f)
        (thenE (pf_syncDirectory pf dir) (ret (f_path f)))))))
     (\<lambda>p w. p = f_path f \<and> stable_env S w \<and> (A w \<and> file_at ar an w) \<and> file_at f (nd\<lparr>n_perm := mode\<rparr>) w)
     (\<lambda>_ w. stable_env S w \<and> (A w \<and> file_at ar an w) \<and>
        (\<exists>m. file_at f (nd\<lparr>n_perm := m\<rparr>) w))"
proof -
  let ?B = "\<lambda>w. A w \<and> file_at ar an w"
  have S: "S (f_path f)" and locB: "local_to (except S (f_path f)) ?B" and blindB: "effect_blind ?B"
    using ok blind by (auto simp: sink_ok_def)
  have loc: "local_to S (\<lambda>w. ?B w \<and> file_at f nd' w)" for nd'
    by (rule local_to_conj [OF local_except [OF locB]]) (rule local_file_at, rule S)
  let ?P = "\<lambda>nd' w. stable_env S w \<and> ?B w \<and> file_at f nd' w"
  let ?E = "\<lambda>_ w. stable_env S w \<and> ?B w \<and> (\<exists>m. file_at f (nd\<lparr>n_perm := m\<rparr>) w)"
  have nd: "nd\<lparr>n_perm := n_perm nd\<rparr> = nd" by simp
  have E: "?E e w" if "?P (nd\<lparr>n_perm := m\<rparr>) w" for e w m using that by blast
  have E0: "?E e w" if "?P nd w" for e w
    using that by (auto intro!: exI [of _ "n_perm nd"])
  have pure: "hoare (?P nd') m' (\<lambda>_. ?P nd') ?E"
    if "\<And>A. local_to S A \<Longrightarrow> preserves (\<lambda>w. stable_env S w \<and> A w) m'"
      "nd' = nd\<lparr>n_perm := n_perm nd'\<rparr>" for m' :: "unit io" and nd'
    by (rule hoare_weaken [OF that(1) [OF loc [of nd']]])
      (assumption, assumption, subst (asm) that(2), erule E)
  have chmod: "hoare (?P nd) (os_chmod f mode) (\<lambda>_. ?P (nd\<lparr>n_perm := mode\<rparr>)) ?E"
  proof (rule hoare_weaken [OF os_chmod_rule [where A = ?B and S = S and nd = nd]])
    show "?B (emit (EChmod (f_ino f) mode) w')"
      if "?B w" "same_on (except S (f_path f)) w w'" for w w'
      by (rule effect_blindD [OF blindB]) (use local_toD [OF locB that(2,1)] in simp_all)
  qed (use S local_except [OF locB] E0 in blast)+
  show ?thesis
    by (rule hoare_then [OF pure [OF ctx_check_local]], simp,
        rule hoare_then [OF pure [OF pure_calls(5)]], assumption, simp,
        rule hoare_then [OF chmod],
        rule hoare_then [OF pure [OF pure_calls(6)]], assumption, simp,
        rule hoare_then [OF pure [OF sync_local]], assumption, simp,
        rule hoare_ret, simp)
qed

lemma stage_body_rule:
  assumes blind: "effect_blind A"
  shows "hoare (sink_inv S A ar an f (plain_node [] 384) [])
    (stage_body lib pf target mode asset ar asz m f)
    (\<lambda>p w. p = f_path f \<and> stable_env S w \<and> A w \<and> file_at ar an w \<and>
       (\<exists>nd. staged lib asset (n_content an) asz m (mode mod 512) nd \<and> file_at f nd w))
    (\<lambda>_ w. stable_env S w \<and> A w \<and> file_at ar an w \<and>
       (\<exists>nd. safe_leftover lib asset (n_content an) asz m nd \<and> file_at f nd w))"
    (is "hoare ?P _ ?Q ?E")
proof (cases "sink_ok S A ar f")
  case False
  then show ?thesis by (simp add: hoare_def sink_inv_iff)
next
  case ok: True
  let ?nd = "\<lambda>d. (plain_node [] 384)\<lparr>n_content := d\<rparr>"
  have bad: "?E e w" if "sink_bad S A ar an f (plain_node [] 384) w" for e w
  proof -
    from that obtain acc where "sink_inv S A ar an f (plain_node [] 384) acc w"
      by (auto simp: sink_bad_def)
    moreover have "safe_leftover lib asset (n_content an) asz m (?nd acc)"
      by (simp add: safe_leftover_def plain_node_def)
    ultimately show ?thesis unfolding sink_inv_iff by blast
  qed
  show ?thesis
    unfolding stage_body_def
  proof (rule hoare_bind [OF hoare_weaken [OF stage_sink.extract_sound [where lib = lib and asset = asset
            and asize = asz and m = m]]])
    show "sink_inv S A ar an f (plain_node [] 384) [] w \<Longrightarrow>
      sink_inv S A ar an f (plain_node [] 384) [] w" for w .
    show "?E e w" if "sink_bad S A ar an f (plain_node [] 384) w" for e w
      using that by (rule bad)
    fix n :: int
    let ?R = "\<lambda>n w. \<exists>d. archive_select lib asset (n_content an) asz m = Some d \<and> n = int (length d)
      \<and> sink_inv S A ar an f (plain_node [] 384) d w"
    show "?R n w \<Longrightarrow> ?R n w" for w .
    show "hoare (?R n)
      (if n \<le> 0 then fail (ErrorString ''refusing to stage an empty executable'')
       else thenE ctx_check (thenE (os_sync f) (thenE (os_chmod f (mode mod 512)) (thenE (os_close f)
         (thenE (pf_syncDirectory pf (dir_of target)) (ret (f_path f))))))) ?Q ?E"
    proof (cases "\<exists>d. archive_select lib asset (n_content an) asz m = Some d \<and> n = int (length d)")
      case False
      then show ?thesis by (auto simp: hoare_def)
    next
      case True
      then obtain d where d: "archive_select lib asset (n_content an) asz m = Some d" "n = int (length d)"
        by blast
      have R: "sink_inv S A ar an f (plain_node [] 384) d w" if "?R n w" for w
        using that d by simp
      show ?thesis
      proof (rule hoare_if)
        show "hoare (?R n) (fail (ErrorString ''refusing to stage an empty executable'')) ?Q ?E"
          by (rule hoare_fail) (rule bad, rule sink_badI, erule R)
      next
        assume "\<not> n \<le> 0"
        then have len: "0 < length d" using d by simp
        show "hoare (?R n) (thenE ctx_check (thenE (os_sync f) (thenE (os_chmod f (mode mod 512)) (thenE (os_close f)
           (thenE (pf_syncDirectory pf (dir_of target)) (ret (f_path f))))))) ?Q ?E"
        proof (rule hoare_weaken [OF stage_finish [OF ok blind, of an "?nd d" "mode mod 512" "dir_of target"]])
          show "stable_env S w \<and> (A w \<and> file_at ar an w) \<and> file_at f (?nd d) w" if "?R n w" for w
            using R [OF that] by (simp add: sink_inv_iff)
        next
          fix p w
          assume "p = f_path f \<and> stable_env S w \<and> (A w \<and> file_at ar an w) \<and>
            file_at f (?nd d\<lparr>n_perm := mode mod 512\<rparr>) w"
          then show "?Q p w"
            using d len by (auto simp: staged_def plain_node_def)
        next
          fix e w
          assume "stable_env S w \<and> (A w \<and> file_at ar an w) \<and>
            (\<exists>m. file_at f (?nd d\<lparr>n_perm := m\<rparr>) w)"
          moreover have "safe_leftover lib asset (n_content an) asz m (?nd d\<lparr>n_perm := k\<rparr>)" for k
            using d by (simp add: safe_leftover_def)
          ultimately show "?E e w" by blast
        qed
      qed
    qed
  qed
qed

text \<open>
  \<^verbatim>\<open>stageExecutable\<close>: on success a complete stage file with the executable's mode; on failure the
  stage file is gone, or, if its removal failed too, it is a safe leftover.
\<close>

lemma stageExecutable_rule:
  assumes S: "\<And>p. is_temp target p \<Longrightarrow> S p" and A: "local_to (outer S target) A"
    and blind: "effect_blind A" and ar: "is_temp target (f_path ar)"
  shows "hoare
    (\<lambda>w. stable_env S w \<and> A w \<and> file_at ar an w
       \<and> stages_safe lib asset (n_content an) asz m old target None w)
    (stageExecutable lib pf target mode asset ar asz m)
    (\<lambda>p w. stable_env S w \<and> A w \<and> file_at ar an w \<and> is_stage target p \<and> p \<noteq> f_path ar
       \<and> (\<exists>nd. staged lib asset (n_content an) asz m (mode mod 512) nd \<and> node_at w p = Some nd)
       \<and> lookup w p \<noteq> None
       \<and> stages_safe lib asset (n_content an) asz m old target None w)
    (\<lambda>_ w. stable_env S w \<and> A w \<and> file_at ar an w
       \<and> stages_safe lib asset (n_content an) asz m old target None w)"
    (is "hoare ?P _ ?Q ?E")
proof -
  let ?safe = "stages_safe lib asset (n_content an) asz m old target"
  have locA: "local_to S A" "\<And>f. is_temp target f \<Longrightarrow> local_to (except S f) A"
    using A by (auto elim: local_to_mono)
  let ?B = "\<lambda>p w. (A w \<and> file_at ar an w \<and> ?safe (Some p) w) \<and> f_path ar \<noteq> p"
  have lse: "local_to (except S p) (?safe (Some p))" for p
    by (rule local_stages_except) (rule S)
  have loc: "local_to S (\<lambda>w. A w \<and> file_at ar an w \<and> ?safe None w)"
    by (rule local_to_conj [OF locA(1)], rule local_to_conj, rule local_file_at, rule S [OF ar],
        rule local_stages [OF S])
  have create: "hoare ?P (createStageFile target)
      (\<lambda>f w. stable_env S w \<and> ?B (f_path f) w \<and> is_temp target (f_path f)
         \<and> stale_name target ''stage'' (base_of (f_path f)) \<and> file_at f (plain_node [] 384) w) ?E"
    unfolding createStageFile_def
  proof (rule hoare_weaken [OF create_random_rule [OF S loc, where B = ?B]])
    fix p w w'
    assume w: "is_temp target p" "A w \<and> file_at ar an w \<and> ?safe None w" "lookup w p = None"
      and same: "same_on (except S p) w w'"
    then have ne: "f_path ar \<noteq> p" by (auto simp: file_at_def)
    have "A w'" using local_toD [OF locA(2) [OF w(1)] same] w(2) by blast
    moreover have "file_at ar an w'"
      by (rule file_at_frame [OF _ _ same]) (use w(2) S [OF ar] ne in simp_all)
    moreover have safe: "?safe (Some p) w"
      using w(2) unfolding stages_safe_def by blast
    moreover have "?safe (Some p) w'"
      by (rule local_toD [OF lse same safe])
    ultimately have "A w'" "file_at ar an w'" "?safe (Some p) w'" by blast+
    then show "?B p w'" using ne by blast
  qed auto
  show ?thesis
    unfolding stageExecutable_def
  proof (rule hoare_then [OF ctx_check_local], rule hoare_bind [OF create])
    fix f
    let ?C = "\<lambda>w. A w \<and> ?safe (Some (f_path f)) w"
    let ?R = "\<lambda>w. stable_env S w \<and> ?B (f_path f) w \<and> is_temp target (f_path f)
         \<and> stale_name target ''stage'' (base_of (f_path f)) \<and> file_at f (plain_node [] 384) w"
    show "hoare ?R (deferE (stage_body lib pf target mode asset ar asz m f) (os_close f)
        (os_remove (f_path f))) ?Q ?E"
    proof (cases "is_temp target (f_path f) \<and> stale_name target ''stage'' (base_of (f_path f))
        \<and> f_path ar \<noteq> f_path f")
      case False
      then show ?thesis by (auto simp: hoare_def)
    next
      case f: True
      then have stage: "is_stage target (f_path f)" by (simp add: is_stage_def is_temp_def)
      have Sf: "S (f_path f)" using f S by blast
      have locC: "local_to (except S (f_path f)) ?C"
        by (rule local_to_conj [OF locA(2) lse]) (use f in blast)
      have blindC: "effect_blind ?C" using blind blind_stages by blast
      let ?leftover = "safe_leftover lib asset (n_content an) asz m"
      let ?done = "staged lib asset (n_content an) asz m (mode mod 512)"
      let ?X = "\<lambda>p w. p = f_path f \<and> stable_env S w \<and> ?C w \<and> file_at ar an w \<and>
        (\<exists>nd. ?done nd \<and> file_at f nd w)"
      let ?Y = "\<lambda>w. stable_env S w \<and> (?C w \<and> file_at ar an w \<and> (\<exists>nd. ?leftover nd \<and> file_at f nd w))"
      have nd0: "(plain_node [] 384)\<lparr>n_content := []\<rparr> = plain_node [] 384"
        by (simp add: plain_node_def)
      have ok: "sink_ok S ?C ar f"
        using f Sf S [OF ar] locC by (simp add: sink_ok_def)
      have body: "hoare ?R (stage_body lib pf target mode asset ar asz m f) ?X (\<lambda>_. ?Y)"
      proof (rule hoare_weaken [OF stage_body_rule [OF blindC, of S ar an f]])
        show "sink_inv S ?C ar an f (plain_node [] 384) [] w" if "?R w" for w
          using that ok by (simp add: sink_inv_iff nd0)
      qed (assumption | blast)+
      have locX: "local_to S (\<lambda>w. ?C w \<and> file_at ar an w \<and> (\<exists>nd. P nd \<and> file_at f nd w))" for P
        by (rule local_to_conj [OF local_except [OF locC]], rule local_to_conj, rule local_file_at,
            rule S [OF ar], rule local_ex_file, rule Sf)
      have safe_None: "?safe None w"
        if "?C w" "\<And>nd. node_at w (f_path f) = Some nd \<Longrightarrow> ?leftover nd" for w
        using that stages_safe_Some by blast
      have done_safe: "?leftover nd" if "?done nd" for nd
        using that by (auto simp: staged_def safe_leftover_def plain_node_def)
      show ?thesis
      proof (rule hoare_defer [OF body])
        have QI: "?Q (f_path f) w"
          if w: "stable_env S w \<and> (?C w \<and> file_at ar an w \<and> (\<exists>nd. ?done nd \<and> file_at f nd w))" for w
        proof -
          obtain nd where that: "stable_env S w" "?C w" "file_at ar an w" "?done nd" "file_at f nd w"
            using w by blast
          have node: "node_at w (f_path f) = Some nd" "lookup w (f_path f) \<noteq> None"
            using that(5) by (simp_all add: file_at_def)
          with that(2) done_safe [OF that(4)] have "?safe None w"
            by (intro safe_None) auto
          with that(1-4) node stage f show ?thesis by auto
        qed
        show "hoare (?X p) (os_close f) (\<lambda>_. ?Q p) (\<lambda>_. ?Q p)" for p
        proof (cases "p = f_path f")
          case True
          have "hoare (?X p) (os_close f)
            (\<lambda>_ w. stable_env S w \<and> (?C w \<and> file_at ar an w \<and> (\<exists>nd. ?done nd \<and> file_at f nd w)))
            (\<lambda>_ w. stable_env S w \<and> (?C w \<and> file_at ar an w \<and> (\<exists>nd. ?done nd \<and> file_at f nd w)))"
            by (rule hoare_pre [OF pure_calls(6) [OF locX [of ?done]]]) blast
          then show ?thesis
            unfolding True by (rule hoare_weaken) (assumption | erule QI)+
        qed (simp add: hoare_def)
        show "hoare ?Y (os_close f) (\<lambda>_. ?Y) (\<lambda>_. ?Y)"
          by (rule pure_calls(6) [OF locX])
        show "hoare ?Y (os_remove (f_path f)) (\<lambda>_. ?E e) (\<lambda>_. ?E e)" for e :: gerror
        proof (rule os_remove_rule [OF locX])
          fix w
          assume w: "stable_env S w" "?C w \<and> file_at ar an w \<and> (\<exists>nd. ?leftover nd \<and> file_at f nd w)"
          then show "?E e w"
            using safe_None [of w] by (auto simp: file_at_def)
        next
          fix w i
          let ?w = "emit (ERemove (f_path f)) (del_name (f_path f) w)"
          assume w: "stable_env S w" "?C w \<and> file_at ar an w \<and> (\<exists>nd. ?leftover nd \<and> file_at f nd w)"
          have same: "same_on (except S (f_path f)) w (del_name (f_path f) w)"
            by (rule same_del_name)
          have "?C ?w"
            by (rule effect_blindD [OF blindC], simp, rule local_toD [OF locC same]) (use w in blast)
          moreover have "file_at ar an (del_name (f_path f) w)"
            by (rule file_at_frame [OF _ _ same]) (use w S [OF ar] f in simp_all)
          then have "file_at ar an ?w" by (simp add: file_at_def)
          moreover have "stable_env S ?w" using w by (simp add: stable_updates)
          moreover have "node_at ?w (f_path f) = None" by (simp add: node_at_del_name)
          ultimately show "?E e ?w" using safe_None [of ?w] by auto
        qed
      qed
    qed
  qed
qed

end

section \<open>What the sweep removes and what it leaves\<close>

text \<open>A removal of a temporary file keeps every assertion on other names.\<close>

lemma remove_temp:
  assumes S: "\<And>p. is_temp target p \<Longrightarrow> S p" and A: "local_to (outer S target) A"
    and blind: "effect_blind A" and p: "is_temp target p"
    and w: "stable_env S w" "A w"
  shows "stable_env S (emit (ERemove p) (del_name p w)) \<and> A (emit (ERemove p) (del_name p w))"
proof -
  have "local_to (except S p) A"
    by (rule local_to_mono [OF A]) (use p in auto)
  from local_toD [OF this same_del_name] w(2) have "A (del_name p w)" by blast
  then have "A (emit (ERemove p) (del_name p w))"
    by (rule effect_blindD [OF blind, rotated]) simp
  then show ?thesis using w(1) by (simp add: stable_updates)
qed

lemma cleanup_frame:
  assumes S: "\<And>p. is_temp target p \<Longrightarrow> S p" and A: "local_to (outer S target) A"
    and blind: "effect_blind A"
  shows "preserves (\<lambda>w. stable_env S w \<and> A w) (cleanupStaleFiles target infx)"
proof -
  have loc: "local_to S A" by (rule local_to_mono [OF A]) blast
  have "preserves (\<lambda>w. stable_env S w \<and> A w) (cleanup_entries target infx es)" for es
  proof (induction es)
    case Nil
    show ?case by (auto intro: hoare_ret)
  next
    case (Cons e es)
    obtain name kind where e: "e = (name, kind)" by (cases e)
    let ?p = "Path (dir_of target) name"
    have "preserves (\<lambda>w. stable_env S w \<and> A w)
        (handleE (os_remove ?p) (\<lambda>e. if errors_is e ErrNotExist then ret () else fail e))"
      if "stale_name target infx name"
    proof (rule hoare_handle [where F = "\<lambda>_ w. stable_env S w \<and> A w"])
      show "preserves (\<lambda>w. stable_env S w \<and> A w) (os_remove ?p)"
        by (rule os_remove_rule [OF loc])
          (use remove_temp [OF S A blind stale_name_temp [OF that]] in auto)
    qed (auto intro: hoare_ret hoare_fail)
    with Cons show ?case
      unfolding e by (auto intro: hoare_then)
  qed
  then show ?thesis
    unfolding cleanupStaleFiles_def by (intro hoare_bind [OF pure_calls(8) [OF loc]])
qed

text \<open>
  After a sweep that succeeds no entry with a stale name is left but symbolic links and
  directories, provided that nobody else uses the names and the errors are honest.
\<close>

definition swept :: "path \<Rightarrow> string \<Rightarrow> (string \<times> node_kind) list \<Rightarrow> world \<Rightarrow> bool" where
  "swept target infx es w \<longleftrightarrow>
     (\<forall>name nd. stale_name target infx name \<and> node_at w (Path (dir_of target) name) = Some nd \<longrightarrow>
        n_kind nd = Symlink \<or> n_kind nd = Directory \<or> (name, n_kind nd) \<in> set es)"

lemma local_swept:
  assumes "\<And>p. is_temp target p \<Longrightarrow> S p"
  shows "local_to S (swept target infx es)"
  unfolding local_to_def same_on_def swept_def
  using assms stale_name_temp by metis

lemma cleanup_entries_swept:
  assumes S: "\<And>p. is_temp target p \<Longrightarrow> S p"
  shows "hoare (\<lambda>w. stable_env S w \<and> swept target infx es w \<and> env_honest w)
    (cleanup_entries target infx es) (\<lambda>_. swept target infx []) (\<lambda>_ _. True)"
proof (induction es)
  case Nil
  show ?case by (auto intro: hoare_ret)
next
  case (Cons e es)
  obtain name kind where e: "e = (name, kind)" by (cases e)
  let ?p = "Path (dir_of target) name"
  let ?K = "\<lambda>es w. stable_env S w \<and> swept target infx es w \<and> env_honest w"
  have loc: "local_to S (\<lambda>w. swept target infx (e # es) w \<and> env_honest w)"
    by (rule local_to_conj [OF local_swept local_honest]) (rule S)
  have rm: "hoare (?K (e # es))
      (handleE (os_remove ?p) (\<lambda>e. if errors_is e ErrNotExist then ret () else fail e))
      (\<lambda>_. ?K es) (\<lambda>_ _. True)"
  proof (rule hoare_handle)
    show "hoare (?K (e # es)) (os_remove ?p) (\<lambda>_. ?K es)
      (\<lambda>err w. stable_env S w \<and> (swept target infx (e # es) w \<and> env_honest w)
         \<and> (errors_is err ErrNotExist \<longrightarrow> lookup w ?p = None))"
      by (rule hoare_pre [OF os_remove_honest [OF loc]])
        (auto simp: e swept_def node_at_del_name stable_updates env_honest_def)
    fix err
    have gone: "swept target infx es w"
      if "swept target infx (e # es) w" "lookup w ?p = None" for w
    proof -
      have "node_at w ?p = None" using that(2) by (simp add: node_at_def)
      with that(1) show ?thesis
        unfolding swept_def e by (metis Pair_inject option.distinct(1) set_ConsD)
    qed
    show "hoare (\<lambda>w. stable_env S w \<and> (swept target infx (e # es) w \<and> env_honest w)
         \<and> (errors_is err ErrNotExist \<longrightarrow> lookup w ?p = None))
      (if errors_is err ErrNotExist then ret () else fail err) (\<lambda>_. ?K es) (\<lambda>_ _. True)"
      by (auto intro!: hoare_if hoare_ret hoare_fail gone)
  qed
  have skip: "?K es w" if "?K (e # es) w"
    "\<not> stale_name target infx name \<or> kind = Symlink \<or> kind = Directory" for w
    using that unfolding swept_def e by auto
  have go: "hoare (?K es) (cleanup_entries target infx es) (\<lambda>_. swept target infx []) (\<lambda>_ _. True)"
    by (rule Cons)
  consider "\<not> stale_name target infx name" | "stale_name target infx name" "kind = Symlink \<or> kind = Directory"
    | "stale_name target infx name" "\<not> (kind = Symlink \<or> kind = Directory)"
    by blast
  then show ?case
  proof cases
    case 1
    then show ?thesis
      unfolding e cleanup_entries.simps using hoare_pre [OF go skip [unfolded e]] by simp
  next
    case 2
    then show ?thesis
      unfolding e cleanup_entries.simps using hoare_pre [OF go skip [unfolded e]] by simp
  next
    case 3
    then show ?thesis
      unfolding e cleanup_entries.simps using hoare_then [OF rm go] by (simp add: e)
  qed
qed

lemma cleanup_swept:
  assumes S: "\<And>p. is_temp target p \<Longrightarrow> S p"
  shows "hoare (\<lambda>w. stable_env S w \<and> env_honest w) (cleanupStaleFiles target infx)
    (\<lambda>_. swept target infx []) (\<lambda>_ _. True)"
  unfolding cleanupStaleFiles_def
proof (rule hoare_bind)
  show "hoare (\<lambda>w. stable_env S w \<and> env_honest w) (os_read_dir (dir_of target))
    (\<lambda>es w. stable_env S w \<and> swept target infx es w \<and> env_honest w) (\<lambda>_ _. True)"
    unfolding os_read_dir_def
    by (rule hoare_syscall_local [OF local_honest])
      (auto simp: hoare_def swept_def dir_entries_iff stable_env_def)
qed (rule cleanup_entries_swept [OF S])

text \<open>The sweep of one kind of file never touches a name of another kind.\<close>

lemma stale_names_disjoint:
  assumes "stale_name target i name" "stale_name target j name"
  shows "i = j"
proof -
  have "length i = length j"
    using assms by (auto simp: stale_name_iff temp_prefix_def dest!: arg_cong [where f = length])
  with assms show ?thesis by (auto simp: stale_name_iff temp_prefix_def)
qed

section \<open>Properties of the temporary files\<close>


text \<open>C18 When no other process uses the temporary names and errors are honest, a sweep that succeeds has removed
  every stale file of its kind: only symbolic links and directories keep such a name.\<close>

theorem sweep_complete:
  "hoare (\<lambda>w. stable_env (is_temp target) w \<and> env_honest w) (cleanupStaleFiles target infx)
    (\<lambda>_. swept target infx []) (\<lambda>_ _. True)"
  by (rule cleanup_swept)

text \<open>C19 The sweep of one kind of file leaves every other name alone: the executable, the lock, backups, and
  files of other kinds or other programs.\<close>

theorem sweep_only_stale:
  assumes q: "\<not> (dir_of q = dir_of target \<and> stale_name target infx (base_of q))"
  shows "preserves (\<lambda>w. stable_env (\<lambda>p. p = q \<or> is_temp target p) w \<and> node_at w q = x)
    (cleanupStaleFiles target infx)"
proof -
  let ?S = "\<lambda>p. p = q \<or> is_temp target p"
  let ?P = "\<lambda>w. stable_env ?S w \<and> node_at w q = x"
  have loc: "local_to ?S (\<lambda>w. node_at w q = x)"
    by (auto simp: local_to_def same_on_def)
  have rm: "preserves ?P (os_remove (Path (dir_of target) name))"
    if "stale_name target infx name" for name
  proof (rule os_remove_rule [OF loc])
    fix w i
    assume w: "stable_env ?S w" "node_at w q = x"
    have "q \<noteq> Path (dir_of target) name" using q that by auto
    with w show "?P (emit (ERemove (Path (dir_of target) name)) (del_name (Path (dir_of target) name) w))"
      by (simp add: stable_updates node_at_del_name)
  qed auto
  have "preserves ?P (cleanup_entries target infx es)" for es
  proof (induction es)
    case Nil
    show ?case by (auto intro: hoare_ret)
  next
    case (Cons e es)
    obtain name kind where e: "e = (name, kind)" by (cases e)
    have "preserves ?P (handleE (os_remove (Path (dir_of target) name))
        (\<lambda>e. if errors_is e ErrNotExist then ret () else fail e))"
      if "stale_name target infx name"
      by (rule hoare_handle [OF rm [OF that]]) (auto intro: hoare_ret hoare_fail)
    with Cons show ?case
      unfolding e by (auto intro: hoare_then)
  qed
  then show ?thesis
    unfolding cleanupStaleFiles_def by (intro hoare_bind [OF pure_calls(8) [OF loc]])
qed

theorem sweep_only_stale_witness:
  "preserves (\<lambda>w. stable_env (\<lambda>p. p = Path ''/bin'' ''tool'' \<or> is_temp (Path ''/bin'' ''tool'') p) w
       \<and> node_at w (Path ''/bin'' ''tool'') = Some (plain_node ''old'' 493))
     (cleanupStaleFiles (Path ''/bin'' ''tool'') ''stage'')"
proof (rule sweep_only_stale)
  have "\<not> stale_name (Path ''/bin'' ''tool'') ''stage'' ''tool''" by code_simp
  then show "\<not> (dir_of (Path ''/bin'' ''tool'') = dir_of (Path ''/bin'' ''tool'')
      \<and> stale_name (Path ''/bin'' ''tool'') ''stage'' (base_of (Path ''/bin'' ''tool'')))" by simp
qed

text \<open>C13 Extraction refines its specification: whatever other processes do to other names and whatever fails, when
  \<^verbatim>\<open>extractArchive\<close> returns, the archive has exactly one acceptable member for the command and the destination file
  holds exactly its bytes.\<close>

theorem extraction_refines:
  "hoare (sink_inv S A ar an f nd []) (extractArchive lib asset ar asz m (os_write f))
     (\<lambda>n w. \<exists>d. archive_select lib asset (n_content an) asz m = Some d \<and> n = int (length d)
        \<and> sink_inv S A ar an f nd d w)
     (\<lambda>_. sink_bad S A ar an f nd)"
  by (rule stage_sink.extract_sound)
text \<open>C35 Extraction is bounded: for every archive, reader and fault, the destination file never holds more than one byte
  above the limit on binaries, not even when extraction fails, and extraction that returns has written between one
  byte and the limit.\<close>

theorem extraction_bounded:
  "hoare (sink_inv S A ar an f nd []) (extractArchive lib asset ar asz m (os_write f))
     (\<lambda>n w. 0 < n \<and> n \<le> maxBinaryBytes \<and> (\<exists>d. int (length d) = n \<and> sink_inv S A ar an f nd d w))
     (\<lambda>_ w. \<exists>d. int (length d) \<le> maxBinaryBytes + 1 \<and> sink_inv S A ar an f nd d w)"
  by (rule hoare_weaken [OF bounded_sink.extract_sound])
    (auto simp: bounded_inv_def bounded_bad_def maxBinaryBytes_def dest: archive_select_size)

end
