(* ===== verification/Replacement.thy ===== *)
theory Replacement
  imports Install
begin

text \<open>
  The contract of the platform's replacement of the executable, as the client of
  \<^verbatim>\<open>replaceExecutable\<close> (Apply) relies on it: which renames may happen, that the reported commit is
  the truth, and that the original executable is never lost. What these mean differs between the
  platforms (one rename on Unix; a backup that is rolled back on Windows), so the contract takes
  them as parameters. Replace_Unix and Replace_Windows prove it for their definitions.
\<close>

text \<open>The same executable, whatever the attributes (hiding a file changes only them).\<close>

definition same_file :: "node \<Rightarrow> node \<Rightarrow> bool" where
  "same_file nd nd' \<longleftrightarrow>
     n_kind nd = n_kind nd' \<and> n_content nd = n_content nd' \<and> n_perm nd = n_perm nd'"

definition holds :: "path \<Rightarrow> node \<Rightarrow> world \<Rightarrow> bool" where
  "holds p nt w \<longleftrightarrow> (case node_at w p of None \<Rightarrow> False | Some nd \<Rightarrow> same_file nd nt)"

definition is_backup :: "path \<Rightarrow> path \<Rightarrow> bool" where
  "is_backup target p \<longleftrightarrow> dir_of p = dir_of target \<and> stale_name target ''backup'' (base_of p)"

text \<open>
  On Windows, the original is where it was, or at the backup path that the returned \<^verbatim>\<open>RollbackError\<close> names.
\<close>

definition original_safe :: "path \<Rightarrow> node \<Rightarrow> gerror option \<Rightarrow> world \<Rightarrow> bool" where
  "original_safe target nt err w \<longleftrightarrow>
     holds target nt w
     \<or> (case err of Some (RollbackErr t b u r) \<Rightarrow> t = target \<and> is_backup target b \<and> holds b nt w
        | _ \<Rightarrow> False)"

text \<open>
  What the renames of one replacement may do to the target on Windows: bring in the bytes of the stage file,
  and that exactly when the result says committed, or bring back a backup.
\<close>

definition installs :: "path \<Rightarrow> path \<Rightarrow> bytes \<Rightarrow> bool \<Rightarrow> effect list \<Rightarrow> bool" where
  "installs target stage d c rs \<longleftrightarrow>
     (\<forall>a x. ERename a target x \<in> set rs \<longrightarrow> a = stage \<and> x = d \<and> c \<or> is_backup target a)
     \<and> (c \<longrightarrow> ERename stage target d \<in> set rs)"

lemma local_original_safe: "local_to (\<lambda>q. q = target \<or> is_backup target q) (original_safe target nt err)"
  unfolding local_to_def same_on_def original_safe_def holds_def by (auto split: option.splits gerror.splits)

lemma blind_original_safe: "effect_blind (original_safe target nt err)"
proof -
  have h: "holds q nt (emit e w) = holds q nt w" for q e w by (simp add: holds_def)
  have "original_safe target nt err (emit e w) = original_safe target nt err w" for e w
    unfolding original_safe_def h ..
  then show ?thesis by (simp add: effect_blind_def)
qed

lemma installs_backup:
  "installs target stage d c rs \<Longrightarrow> is_backup target a \<Longrightarrow>
   installs target stage d c (ERename a target x # rs)"
  unfolding installs_def by (metis effect.inject(1) set_ConsD list.set_intros(2))

lemma installs_stage:
  "installs target stage d c rs \<Longrightarrow> installs target stage d True (ERename stage target d # rs)"
  unfolding installs_def by (metis effect.inject(1) list.set_intros(1) set_ConsD)

lemma same_file_refl [simp]: "same_file nd nd"
  by (simp add: same_file_def)

lemma holds_self: "node_at w p = Some nd \<Longrightarrow> holds p nd w"
  by (simp add: holds_def)

lemma local_holds: "S p \<Longrightarrow> local_to S (holds p nt)"
  by (simp add: local_to_def same_on_def holds_def)

lemma local_node_at: "S p \<Longrightarrow> local_to S (\<lambda>w. node_at w p = x)"
  by (simp add: local_to_def same_on_def)

lemma is_backup_temp: "is_backup target p \<Longrightarrow> is_temp target p"
  using stale_name_temp [of target "''backup''" "base_of p"]
  by (cases p) (simp add: is_backup_def)

lemma stage_not_backup: "is_stage target p \<Longrightarrow> \<not> is_backup target p"
  using stale_names_disjoint [of target "''stage''" "base_of p" "''backup''"]
  by (auto simp: is_stage_def is_backup_def)

lemma stage_not_target: "is_stage target p \<Longrightarrow> p \<noteq> target"
  using is_stage_temp target_not_temp by blast

text \<open>
  \<open>moves target stage d c rs\<close>: a replacement that reports the commit \<open>c\<close> may have done the renames
  \<open>rs\<close>. \<open>unharmed target nt err w\<close>: the original executable \<open>nt\<close> is safe after a replacement without
  a commit that returned \<open>err\<close>.
\<close>

locale replacement_platform = staging_platform +
  fixes moves :: "path \<Rightarrow> path \<Rightarrow> bytes \<Rightarrow> bool \<Rightarrow> effect list \<Rightarrow> bool"
    and unharmed :: "path \<Rightarrow> node \<Rightarrow> gerror option \<Rightarrow> world \<Rightarrow> bool"
  assumes backups_frame:
      "(\<And>p. is_temp target p \<Longrightarrow> S p) \<Longrightarrow> local_to (outer S target) A \<Longrightarrow> effect_blind A \<Longrightarrow>
       triple (\<lambda>w. stable_env S w \<and> A w) (pf_cleanupStaleBackups pf target)
         (\<lambda>_ w. stable_env S w \<and> A w)"
    and replace_renames:
      "(\<And>p. is_temp target p \<Longrightarrow> S p) \<Longrightarrow> is_stage target stage \<Longrightarrow>
       triple (\<lambda>w. stable_env S w \<and> node_at w stage = Some ns \<and> renames w = rs0)
         (pf_replace pf stage target)
         (\<lambda>r w. stable_env S w \<and> (committed (fst r) \<or> snd r \<noteq> None)
            \<and> (\<exists>rs. renames w = rs @ rs0 \<and> moves target stage (n_content ns) (committed (fst r)) rs))"
    and replace_safe:
      "S target \<Longrightarrow> (\<And>p. is_temp target p \<Longrightarrow> S p) \<Longrightarrow> is_stage target stage \<Longrightarrow>
       triple (\<lambda>w. stable_env S w \<and> node_at w stage = Some ns \<and> node_at w target = Some nt)
         (pf_replace pf stage target)
         (\<lambda>r w. stable_env S w
            \<and> (if committed (fst r) then node_at w target = Some ns
               else unharmed target nt (snd r) w))"
    and unharmed_start: "node_at w target = Some nt \<Longrightarrow> unharmed target nt err w"
    and unharmed_local: "local_to (\<lambda>q. q = target \<or> is_backup target q) (unharmed target nt err)"
    and unharmed_blind: "effect_blind (unharmed target nt err)"

end
