(* ===== verification/Lock.thy ===== *)
theory Lock
  imports Install
begin

text \<open>
  The cross-process lock (lock_unix.go, lock_windows.go). A lock belongs to the inode of the lock
  file and records the holder: 0 is this process, other processes are positive. Acquiring polls
  every 25 ms until the lock is free or the context is done; the result \<open>None\<close> says that the call
  waits forever, which is the case exactly when another process keeps the lock, the context is
  never cancelled and nothing else is going to happen.
\<close>

text \<open>
  \<^verbatim>\<open>unix.Open(path, O_CREAT|O_RDWR|O_CLOEXEC|O_NOFOLLOW, 0o600)\<close> and \<^verbatim>\<open>os.OpenFile(path,
  O_CREATE|O_RDWR, 0o600)\<close>; the latter follows a symbolic link, which stands for its own target
  here.
\<close>

definition os_open_create :: "bool \<Rightarrow> path \<Rightarrow> os_file io" where
  "os_open_create nofollow p = syscall (\<lambda>w.
     case lookup w p of
       None \<Rightarrow> (Inr (File p (next_ino w)), add_node p (plain_node [] 384) w)
     | Some i \<Rightarrow>
         (case node_of w i of
            None \<Rightarrow> (Inl ErrNotExist, w)
          | Some nd \<Rightarrow>
              if n_kind nd = Directory then (Inl (SysError ''EISDIR''), w)
              else if nofollow \<and> n_kind nd = Symlink then (Inl (SysError ''ELOOP''), w)
              else (Inr (File p i), w)))"

definition lock_owner :: "world \<Rightarrow> os_file \<Rightarrow> nat option" where
  "lock_owner w f = map_of (flocks w) (f_ino f)"

text \<open>\<^verbatim>\<open>Flock(LOCK_EX|LOCK_NB)\<close> and \<^verbatim>\<open>LockFileEx(EXCLUSIVE|FAIL_IMMEDIATELY)\<close>\<close>

definition try_lock :: "gerror \<Rightarrow> os_file \<Rightarrow> unit io" where
  "try_lock busy f = syscall (\<lambda>w.
     case lock_owner w f of
       None \<Rightarrow> (Inr (), w\<lparr>flocks := (f_ino f, 0) # flocks w\<rparr>)
     | Some pid \<Rightarrow> (Inl busy, w))"

definition drop_lock :: "os_file \<Rightarrow> world \<Rightarrow> world" where
  "drop_lock f w = w\<lparr>flocks := filter (\<lambda>(i, pid). i \<noteq> f_ino f \<or> pid \<noteq> 0) (flocks w)\<rparr>"

definition unlock :: "os_file \<Rightarrow> unit io" where
  "unlock f = syscall (\<lambda>w. (Inr (), drop_lock f w))"

text \<open>Closing the lock file gives up its lock, also when the close reports an error.\<close>

definition close_lock_file :: "os_file \<Rightarrow> unit io" where
  "close_lock_file f w =
     (case next_step w of (s, w') \<Rightarrow>
        ((case fault s of Some e \<Rightarrow> Inl e | None \<Rightarrow> Inr ()), drop_lock f w'))"

section \<open>Acquiring\<close>

lemma run_acts_script [simp]: "script (run_acts xs w) = script w"
  by (induction xs arbitrary: w) (simp_all add: run_acts_def)

lemma next_step_script: "next_step w = (s, w') \<Longrightarrow> script w' = tl (script w)"
  by (auto simp: next_step_def split: list.splits)

lemma try_lock_script: "try_lock busy f w = (r, w1) \<Longrightarrow> script w1 = tl (script w)"
  by (auto simp: try_lock_def syscall_def split: prod.splits option.splits dest: next_step_script)

lemma poll_shorter:
  assumes "(r, w1) = try_lock busy f w" "(s, w2) = next_step w1" "script w1 \<noteq> []"
  shows "length (script w2) < length (script w)"
  using assms(3) try_lock_script [OF assms(1) [symmetric]] next_step_script [OF assms(2) [symmetric]]
  by (cases "script w") auto

text \<open>
  While it waits for the timer or the context the environment moves. When both are ready
  \<^verbatim>\<open>select\<close> picks either: the environment's step resolves the choice with its \<open>partial\<close> field.
\<close>

function acquire_loop ::
  "(gerror \<Rightarrow> bool) \<Rightarrow> gerror \<Rightarrow> os_file \<Rightarrow> world \<Rightarrow> ((gerror + os_file) \<times> world) option" where
  "acquire_loop retry busy f w =
     (case try_lock busy f w of
        (Inr u, w1) \<Rightarrow> Some (Inr f, w1)
      | (Inl e, w1) \<Rightarrow>
          if \<not> retry e then Some (Inl e, snd (close_lock_file f w1))
          else (case next_step w1 of (s, w2) \<Rightarrow>
            (case ctx_err w2 of
               Some c \<Rightarrow>
                 if partial s = 0 \<or> script w1 = [] then Some (Inl c, snd (close_lock_file f w2))
                 else acquire_loop retry busy f w2
             | None \<Rightarrow> if script w1 = [] then None else acquire_loop retry busy f w2)))"
  by pat_completeness auto
termination
  by (relation "measure (\<lambda>(r, b, f, w). length (script w))") (auto intro: poll_shorter)

declare acquire_loop.simps [simp del]

text \<open>
  \<^verbatim>\<open>os.NewFile\<close> gives a handle for every descriptor that is not negative. The inode number stands for
  the descriptor, so the branch without a handle is there but never taken, as in the program.
\<close>

definition newFile :: "int \<Rightarrow> os_file \<Rightarrow> os_file option" where
  "newFile fd f = (if fd < 0 then None else Some f)"

text \<open>\<open>handle\<close> is the step from the opened descriptor to the file.\<close>

definition acquire_with ::
  "bool \<Rightarrow> (os_file \<Rightarrow> os_file option) \<Rightarrow> (gerror \<Rightarrow> bool) \<Rightarrow> gerror \<Rightarrow> path \<Rightarrow> world \<Rightarrow>
   ((gerror + os_file) \<times> world) option" where
  "acquire_with nofollow handle retry busy p w =
     (case thenE ctx_check (os_open_create nofollow p) w of
        (Inl e, w1) \<Rightarrow> Some (Inl e, w1)
      | (Inr fd, w1) \<Rightarrow>
          (case handle fd of
             None \<Rightarrow> Some (Inl (Errorf ''create file handle for %s'' [AStr (path_string p)]),
               snd (close_lock_file fd w1))
           | Some f \<Rightarrow> acquire_loop retry busy f w1))"

definition acquireFileLock_unix :: "path \<Rightarrow> world \<Rightarrow> ((gerror + os_file) \<times> world) option" where
  "acquireFileLock_unix =
     acquire_with True (\<lambda>f. newFile (int (f_ino f)) f)
       (\<lambda>e. errors_is e ErrWouldBlock \<or> errors_is e ErrAgain) ErrWouldBlock"

definition acquireFileLock_windows :: "path \<Rightarrow> world \<Rightarrow> ((gerror + os_file) \<times> world) option" where
  "acquireFileLock_windows =
     acquire_with False Some (\<lambda>e. errors_is e ErrLockViolation) ErrLockViolation"

text \<open>\<^verbatim>\<open>release\<close> of a nil lock does nothing; otherwise it unlocks and closes, whatever fails.\<close>

definition fileLock_release :: "os_file option \<Rightarrow> unit io" where
  "fileLock_release l w =
     (case l of
        None \<Rightarrow> (Inr (), w)
      | Some f \<Rightarrow>
          (case unlock f w of (r1, w1) \<Rightarrow>
             (case close_lock_file f w1 of (r2, w2) \<Rightarrow>
                ((case r1 of Inl e \<Rightarrow> Inl e | Inr u \<Rightarrow> r2), w2))))"

section \<open>Mutual exclusion\<close>

definition holds_lock :: "os_file \<Rightarrow> world \<Rightarrow> bool" where
  "holds_lock f w \<longleftrightarrow> lock_owner w f = Some 0"

definition flocks_wf :: "world \<Rightarrow> bool" where
  "flocks_wf w \<longleftrightarrow> distinct (map fst (flocks w))"

lemma map_of_filter_keep:
  "map_of xs i = Some v \<Longrightarrow> P (i, v) \<Longrightarrow> map_of (filter P xs) i = Some v"
  by (induction xs) (auto split: if_splits)

lemma map_of_filter_drop:
  "distinct (map fst xs) \<Longrightarrow> map_of (filter P xs) i = Some v \<Longrightarrow> map_of xs i = Some v"
  by (induction xs) (auto split: if_splits simp: dest: map_of_SomeD intro: rev_image_eqI)

lemma flocks_updates [simp]:
  "flocks (add_node p nd w) = flocks w" "flocks (set_node i f w) = flocks w"
  "flocks (del_name p w) = flocks w" "flocks (move_name a b w) = flocks w"
  by (simp_all add: add_node_def set_node_def del_name_def move_name_def split: option.splits)

text \<open>No action of another process takes the lock away.\<close>

lemma run_act_holds: "holds_lock f w \<Longrightarrow> holds_lock f (run_act a w)"
  by (cases a)
    (auto simp: holds_lock_def lock_owner_def map_of_filter_keep split: option.split)

lemma run_acts_holds: "holds_lock f w \<Longrightarrow> holds_lock f (run_acts xs w)"
  by (induction xs arbitrary: w) (simp_all add: run_acts_def run_act_holds)

lemma next_step_holds: "holds_lock f w \<Longrightarrow> next_step w = (s, w') \<Longrightarrow> holds_lock f w'"
  using run_acts_holds [of f "w\<lparr>script := _\<rparr>"]
  by (auto simp: next_step_def holds_lock_def lock_owner_def split: list.splits)

text \<open>No action of another process makes this one the holder.\<close>

lemma run_act_not_holds:
  "flocks_wf w \<and> \<not> holds_lock f w \<Longrightarrow> flocks_wf (run_act a w) \<and> \<not> holds_lock f (run_act a w)"
  by (cases a)
    (auto simp: flocks_wf_def holds_lock_def lock_owner_def distinct_map_filter map_of_eq_None_iff
      dest: map_of_filter_drop split: option.splits)

lemma run_acts_not_holds:
  "flocks_wf w \<and> \<not> holds_lock f w \<Longrightarrow> flocks_wf (run_acts xs w) \<and> \<not> holds_lock f (run_acts xs w)"
proof (induction xs arbitrary: w)
  case Nil
  then show ?case by (simp add: run_acts_def)
next
  case (Cons a xs)
  from Cons.IH [OF run_act_not_holds [OF Cons.prems, of a]] show ?case
    by (simp add: run_acts_def)
qed

lemma next_step_not_holds:
  "flocks_wf w \<and> \<not> holds_lock f w \<Longrightarrow> next_step w = (s, w') \<Longrightarrow> flocks_wf w' \<and> \<not> holds_lock f w'"
  using run_acts_not_holds [of "w\<lparr>script := _\<rparr>" f]
  by (auto simp: next_step_def flocks_wf_def holds_lock_def lock_owner_def split: list.splits)

section \<open>What acquiring and releasing do\<close>

lemma same_flocks [simp]: "same_on S w (w\<lparr>flocks := x\<rparr>)"
  by (simp add: same_on_def)

lemma stable_flocks [simp]: "stable_env S (w\<lparr>flocks := x\<rparr>) = stable_env S w"
  by (simp add: stable_env_def env_avoids_def)

lemma local_flocks: "local_to S A \<Longrightarrow> A w \<Longrightarrow> A (w\<lparr>flocks := x\<rparr>)"
  by (erule local_toD [OF _ same_flocks])

lemma next_step_local:
  "local_to S A \<Longrightarrow> stable_env S w \<and> A w \<Longrightarrow> next_step w = (s, w') \<Longrightarrow> stable_env S w' \<and> A w'"
  using next_step_frame local_toD by blast

lemma try_lock_frame: "local_to S A \<Longrightarrow> preserves (\<lambda>w. stable_env S w \<and> A w) (try_lock busy f)"
  unfolding try_lock_def
  by (rule hoare_syscall_local) (auto simp: hoare_def local_flocks split: option.split)

lemma unlock_frame: "local_to S A \<Longrightarrow> preserves (\<lambda>w. stable_env S w \<and> A w) (unlock f)"
  unfolding unlock_def
  by (rule hoare_syscall_local) (auto simp: hoare_def local_flocks drop_lock_def)

lemma close_lock_frame:
  assumes "local_to S A"
  shows "preserves (\<lambda>w. stable_env S w \<and> A w) (close_lock_file f)"
  unfolding hoare_def
proof (intro allI impI)
  fix w
  assume w: "stable_env S w \<and> A w"
  obtain s w' where n: "next_step w = (s, w')" by (cases "next_step w")
  have "stable_env S w' \<and> A w'" by (rule next_step_local [OF assms w n])
  then have "stable_env S (drop_lock f w') \<and> A (drop_lock f w')"
    unfolding drop_lock_def using local_flocks [OF assms] by simp
  with n show "case close_lock_file f w of (Inl e, w') \<Rightarrow> stable_env S w' \<and> A w'
      | (Inr a, w') \<Rightarrow> stable_env S w' \<and> A w'"
    by (simp add: close_lock_file_def split: option.split)
qed

text \<open>The rule of the polling loop.\<close>

lemma acquire_loop_rule:
  assumes poll: "\<And>w e w1. I w \<Longrightarrow> try_lock busy f w = (Inl e, w1) \<Longrightarrow> I w1"
    and wait: "\<And>w s w'. I w \<Longrightarrow> next_step w = (s, w') \<Longrightarrow> I w'"
    and locked: "\<And>w w1. I w \<Longrightarrow> try_lock busy f w = (Inr (), w1) \<Longrightarrow> Q (Inr f) w1"
    and gave_up: "\<And>w e. I w \<Longrightarrow> Q (Inl e) (snd (close_lock_file f w))"
  shows "I w \<Longrightarrow> acquire_loop retry busy f w = Some (r, w') \<Longrightarrow> Q r w'"
proof (induction "length (script w)" arbitrary: w rule: less_induct)
  case less
  obtain x w1 where t: "try_lock busy f w = (x, w1)" by (cases "try_lock busy f w")
  obtain s w2 where n: "next_step w1 = (s, w2)" by (cases "next_step w1")
  show ?case
  proof (cases x)
    case (Inr u)
    with less.prems t locked show ?thesis by (simp add: acquire_loop.simps [of retry])
  next
    case (Inl e)
    with poll less.prems(1) t have w1: "I w1" by blast
    with wait n have w2: "I w2" by blast
    have IH: "Q r w'" if "script w1 \<noteq> []" "acquire_loop retry busy f w2 = Some (r, w')"
      by (rule less.hyps [OF poll_shorter [OF t [symmetric] n [symmetric] that(1)] w2 that(2)])
    show ?thesis
      using less.prems(2) t Inl n gave_up [OF w1] gave_up [OF w2] IH
      by (auto simp: acquire_loop.simps [of retry] split: option.splits if_splits)
  qed
qed

lemma acquire_loop_frame:
  assumes A: "local_to S A"
  shows "stable_env S w \<and> A w \<Longrightarrow> acquire_loop retry busy f w = Some (r, w') \<Longrightarrow> stable_env S w' \<and> A w'"
proof (rule acquire_loop_rule [where I = "\<lambda>w. stable_env S w \<and> A w" and Q = "\<lambda>_ w. stable_env S w \<and> A w"])
  show "stable_env S w1 \<and> A w1" if "stable_env S w \<and> A w" "try_lock busy f w = (Inl e, w1)" for w e w1
    using hoareD_err [OF try_lock_frame [OF A] that] .
  show "stable_env S w1 \<and> A w1" if "stable_env S w \<and> A w" "try_lock busy f w = (Inr (), w1)" for w w1
    using hoareD_ok [OF try_lock_frame [OF A] that] .
  show "stable_env S (snd (close_lock_file f w)) \<and> A (snd (close_lock_file f w))"
    if "stable_env S w \<and> A w" for w
    by (rule hoare_snd [OF close_lock_frame [OF A] that])
qed (use next_step_local [OF A] in blast)+

lemma stable_wf: "stable_env S w \<Longrightarrow> wf_world w"
  by (simp add: stable_env_def)

lemma open_create_frame:
  assumes "local_to (except S p) A"
  shows "preserves (\<lambda>w. stable_env S w \<and> A w) (os_open_create nofollow p)"
  unfolding os_open_create_def
  by (rule hoare_syscall_local [OF local_except [OF assms]])
    (use local_toD [OF assms same_add_node] stable_add_node stable_wf
     in \<open>auto simp: hoare_def split: option.split\<close>)

text \<open>Acquiring disturbs no name but the lock file's.\<close>

lemma acquire_frame:
  assumes "local_to (except S p) A" "stable_env S w \<and> A w"
    "acquire_with nofollow handle retry busy p w = Some (r, w')"
  shows "stable_env S w' \<and> A w'"
proof -
  have "preserves (\<lambda>w. stable_env S w \<and> A w) (thenE ctx_check (os_open_create nofollow p))"
    by (rule hoare_then [OF _ open_create_frame [OF assms(1)]])
      (simp add: hoare_def ctx_check_def split: option.split)
  note open_rule = hoareD_ok [OF this assms(2)] hoareD_err [OF this assms(2)]
  obtain x w1 where x: "thenE ctx_check (os_open_create nofollow p) w = (x, w1)"
    by (cases "thenE ctx_check (os_open_create nofollow p) w")
  show ?thesis
  proof (cases x)
    case (Inl e)
    with x have "thenE ctx_check (os_open_create nofollow p) w = (Inl e, w1)" by simp
    from open_rule(2) [OF this] x Inl assms(3) show ?thesis by (simp add: acquire_with_def)
  next
    case (Inr fd)
    with x open_rule(1) have w1: "stable_env S w1 \<and> A w1" by blast
    show ?thesis
    proof (cases "handle fd")
      case None
      with x Inr assms(3) have "w' = snd (close_lock_file fd w1)"
        by (auto simp: acquire_with_def)
      with hoare_snd [OF close_lock_frame [OF local_except [OF assms(1)]] w1] show ?thesis by blast
    next
      case (Some f)
      with x Inr assms(3) have loop: "acquire_loop retry busy f w1 = Some (r, w')"
        by (simp add: acquire_with_def)
      show ?thesis
        by (rule acquire_loop_frame [OF local_except [OF assms(1)] w1 loop])
    qed
  qed
qed

text \<open>A lock that was acquired is held; an attempt that failed leaves none behind.\<close>

lemma try_lock_ok: "try_lock busy f w = (Inr u, w1) \<Longrightarrow> holds_lock f w1"
  by (auto simp: try_lock_def syscall_def holds_lock_def lock_owner_def
      split: prod.splits option.splits)

lemma close_releases: "\<not> holds_lock f (snd (close_lock_file f w))"
proof -
  obtain s w' where "next_step w = (s, w')" by (cases "next_step w")
  then show ?thesis
    by (auto simp: close_lock_file_def drop_lock_def holds_lock_def lock_owner_def
        dest: map_of_SomeD split: option.splits)
qed

lemma acquire_holds: "acquire_with nofollow handle retry busy p w = Some (Inr f, w') \<Longrightarrow> holds_lock f w'"
  using acquire_loop_rule [where I = "\<lambda>_. True" and Q = "\<lambda>r w. \<forall>f. r = Inr f \<longrightarrow> holds_lock f w"]
    try_lock_ok
  by (fastforce simp: acquire_with_def split: prod.splits sum.splits option.splits)

lemma release_frees: "\<not> holds_lock f (snd (fileLock_release (Some f) w))"
proof -
  obtain r1 w1 where u: "unlock f w = (r1, w1)" by (cases "unlock f w")
  then have "snd (fileLock_release (Some f) w) = snd (close_lock_file f w1)"
    by (simp add: fileLock_release_def split: prod.splits)
  moreover have "\<not> holds_lock f (snd (close_lock_file f w1))" by (rule close_releases)
  ultimately show ?thesis by simp
qed

lemma release_frame:
  assumes A: "local_to S A"
  shows "preserves (\<lambda>w. stable_env S w \<and> A w) (fileLock_release l)"
proof (cases l)
  case None
  then show ?thesis by (simp add: hoare_def fileLock_release_def)
next
  case (Some f)
  show ?thesis
    unfolding hoare_def
  proof (intro allI impI)
    fix w
    assume w: "stable_env S w \<and> A w"
    obtain r1 w1 where u: "unlock f w = (r1, w1)" by (cases "unlock f w")
    have w1: "stable_env S w1 \<and> A w1"
      using hoare_snd [OF unlock_frame [OF A] w, of f] u by simp
    obtain r2 w2 where c: "close_lock_file f w1 = (r2, w2)" by (cases "close_lock_file f w1")
    have "stable_env S w2 \<and> A w2"
      using hoare_snd [OF close_lock_frame [OF A] w1, of f] c by simp
    then show "case fileLock_release l w of (Inl e, w') \<Rightarrow> stable_env S w' \<and> A w'
        | (Inr a, w') \<Rightarrow> stable_env S w' \<and> A w'"
      using Some u c by (cases r1; cases r2) (auto simp: fileLock_release_def)
  qed
qed

section \<open>Acquiring returns\<close>

text \<open>The context is done, or the script will cancel it.\<close>

definition will_cancel :: "world \<Rightarrow> bool" where
  "will_cancel w \<longleftrightarrow>
     ctx_err w \<noteq> None \<or> list_ex (\<lambda>s. list_ex (\<lambda>a. \<exists>e. a = EnvCancel e) (acts s)) (script w)"

lemma run_act_ctx: "ctx_err w \<noteq> None \<Longrightarrow> ctx_err (run_act a w) \<noteq> None"
  by (cases a) (auto simp: add_node_def set_node_def del_name_def move_name_def split: option.split)

lemma run_acts_ctx: "ctx_err w \<noteq> None \<Longrightarrow> ctx_err (run_acts xs w) \<noteq> None"
proof (induction xs arbitrary: w)
  case (Cons a xs)
  from Cons.IH [OF run_act_ctx [OF Cons.prems]] show ?case by (simp add: run_acts_def)
qed (simp add: run_acts_def)

lemma run_acts_cancel:
  "list_ex (\<lambda>a. \<exists>e. a = EnvCancel e) xs \<Longrightarrow> ctx_err (run_acts xs w) \<noteq> None"
proof (induction xs arbitrary: w)
  case (Cons a xs)
  show ?case
  proof (cases "\<exists>e. a = EnvCancel e")
    case True
    then have "ctx_err (run_act a w) \<noteq> None" by auto
    then show ?thesis using run_acts_ctx [of "run_act a w" xs] by (simp add: run_acts_def)
  next
    case False
    with Cons show ?thesis by (auto simp: run_acts_def)
  qed
qed simp

lemma next_step_will_cancel: "will_cancel w \<Longrightarrow> next_step w = (s, w') \<Longrightarrow> will_cancel w'"
  using run_acts_ctx run_acts_cancel
  by (auto simp: next_step_def will_cancel_def split: list.splits)

lemma try_lock_will_cancel: "will_cancel w \<Longrightarrow> try_lock busy f w = (r, w1) \<Longrightarrow> will_cancel w1"
  using next_step_will_cancel [of w]
  by (fastforce simp: try_lock_def syscall_def will_cancel_def split: prod.splits option.splits)

lemma acquire_loop_returns: "will_cancel w \<Longrightarrow> acquire_loop retry busy f w \<noteq> None"
proof (induction "length (script w)" arbitrary: w rule: less_induct)
  case less
  obtain x w1 where t: "try_lock busy f w = (x, w1)" by (cases "try_lock busy f w")
  obtain s w2 where n: "next_step w1 = (s, w2)" by (cases "next_step w1")
  have w1: "will_cancel w1" by (rule try_lock_will_cancel [OF less.prems t])
  have w2: "will_cancel w2" by (rule next_step_will_cancel [OF w1 n])
  have IH: "acquire_loop retry busy f w2 \<noteq> None" if "script w1 \<noteq> []"
    by (rule less.hyps [OF poll_shorter [OF t [symmetric] n [symmetric] that] w2])
  have "ctx_err w2 \<noteq> None" if "script w1 = []"
    using w1 n that by (auto simp: will_cancel_def next_step_def)
  with t n IH show ?case
    by (auto simp: acquire_loop.simps [of retry] split: sum.split option.split)
qed

section \<open>Properties of the lock\<close>

text \<open>C16 An acquired lock stays with this process whatever other processes do, on both systems: no sequence of their actions
  takes it away or gives it to someone else.\<close>

theorem lock_is_exclusive:
  assumes "acquireFileLock_unix p w = Some (Inr f, w') \<or> acquireFileLock_windows p w = Some (Inr f, w')"
  shows "lock_owner (run_acts xs w') f = Some 0"
proof -
  have "holds_lock f w'"
    using assms acquire_holds by (auto simp: acquireFileLock_unix_def acquireFileLock_windows_def)
  from run_acts_holds [OF this] show ?thesis by (simp add: holds_lock_def)
qed

theorem lock_is_exclusive_witness:
  "\<exists>f w'. acquireFileLock_unix (Path ''/bin'' ''lock'') empty_world = Some (Inr f, w')
     \<and> lock_owner (run_acts [EnvFlock (Path ''/bin'' ''lock'') 3, EnvFunlock (Path ''/bin'' ''lock'')] w') f = Some 0"
proof -
  have "case acquireFileLock_unix (Path ''/bin'' ''lock'') empty_world of
      Some (Inr f, w') \<Rightarrow> True | _ \<Rightarrow> False"
    by code_simp
  then obtain f w' where run: "acquireFileLock_unix (Path ''/bin'' ''lock'') empty_world = Some (Inr f, w')"
    by (auto split: prod.splits sum.splits option.splits)
  from run lock_is_exclusive [OF disjI1 [OF run]] show ?thesis by blast
qed

text \<open>C17 A released lock is free: in a quiet environment the release succeeds and the next process that asks gets the lock.\<close>

theorem release_hands_over:
  assumes "holds_lock f w" "flocks_wf w" "script w = []"
    and "fileLock_release (Some f) w = (r, w')" "lookup w' q = Some (f_ino f)"
  shows "r = Inr () \<and> lock_owner (run_act (EnvFlock q pid) w') f = Some (Suc pid)"
proof -
  let ?F = "filter (\<lambda>(i, pid). i \<noteq> f_ino f \<or> pid \<noteq> 0)"
  have u: "unlock f w = (Inr (), drop_lock f w)" "script (drop_lock f w) = []"
    using assms(3) by (simp_all add: unlock_def syscall_def next_step_def quiet_step_def drop_lock_def)
  then have c: "close_lock_file f (drop_lock f w) = (Inr (), drop_lock f (drop_lock f w))"
    by (simp add: close_lock_file_def next_step_def quiet_step_def)
  have w': "r = Inr ()" "w' = drop_lock f (drop_lock f w)"
    using assms(4) u c by (auto simp: fileLock_release_def)
  have "map_of (?F (?F (flocks w))) (f_ino f) = None"
  proof (rule ccontr)
    assume "map_of (?F (?F (flocks w))) (f_ino f) \<noteq> None"
    then obtain v where v: "(f_ino f, v) \<in> set (?F (?F (flocks w)))" by (metis not_None_eq map_of_SomeD)
    then have "(f_ino f, v) \<in> set (flocks w)" "v \<noteq> 0" by auto
    moreover have "(f_ino f, 0) \<in> set (flocks w)"
      using assms(1) by (auto simp: holds_lock_def lock_owner_def dest: map_of_SomeD)
    ultimately show False
      using assms(2) by (auto simp: flocks_wf_def dest: eq_key_imp_eq_value)
  qed
  then have "map_of (flocks w') (f_ino f) = None" using w' by (simp add: drop_lock_def)
  with w' assms(5) show ?thesis by (simp add: lock_owner_def)
qed

theorem release_hands_over_witness:
  "\<exists>r w'. fileLock_release (Some (File (Path ''/bin'' ''lock'') 4))
       (empty_world\<lparr>dirents := [(Path ''/bin'' ''lock'', 4)], flocks := [(4, 0), (9, 2)]\<rparr>) = (r, w')
     \<and> lock_owner (run_act (EnvFlock (Path ''/bin'' ''lock'') 6) w') (File (Path ''/bin'' ''lock'') 4) = Some 7"
proof -
  let ?f = "File (Path ''/bin'' ''lock'') 4"
  let ?w = "empty_world\<lparr>dirents := [(Path ''/bin'' ''lock'', 4)], flocks := [(4, 0), (9, 2)]\<rparr>"
  have h: "holds_lock ?f ?w" "flocks_wf ?w" "script ?w = []"
    by (simp_all add: holds_lock_def lock_owner_def flocks_wf_def empty_world_def)
  have "case fileLock_release (Some ?f) ?w of (r, w') \<Rightarrow> lookup w' (Path ''/bin'' ''lock'') = Some (f_ino ?f)"
    by code_simp
  then obtain r w' where run: "fileLock_release (Some ?f) ?w = (r, w')"
    "lookup w' (Path ''/bin'' ''lock'') = Some (f_ino ?f)"
    by (auto split: prod.splits)
  from release_hands_over [OF h run, of 6] run(1) show ?thesis by auto
qed

end
