(* ===== verification/Updater.thy ===== *)
theory Updater
  imports Attestation Replacement Lock
begin

text \<open>
  The updater itself (selfupdate.go): validation of the configuration, \<^verbatim>\<open>New\<close>, the plan that \<^verbatim>\<open>Check\<close>
  and \<^verbatim>\<open>CheckVersion\<close> build, and \<^verbatim>\<open>Apply\<close>, from its guards to the deferred clean-up, over a platform.
\<close>

definition defaultAPIBaseURL :: string where
  "defaultAPIBaseURL = ''https://api.github.com''"

definition defaultTimeout :: nat where "defaultTimeout = 60 * 1000"
definition defaultDownloadIdleTimeout :: nat where "defaultDownloadIdleTimeout = 30 * 1000"

section \<open>Configuration\<close>

text \<open>\<open>cf_HTTPClient\<close> is the \<^verbatim>\<open>Timeout\<close> of the client, when one is given; 0 is no limit.\<close>

record attestationPolicy =
  ap_SignerWorkflow :: string
  ap_Verifier :: "verifier option"

record config =
  cf_Repository :: string
  cf_Command :: string
  cf_CurrentVersion :: string
  cf_AllowDowngrade :: bool
  cf_HTTPClient :: "nat option"
  cf_GitHubToken :: string
  cf_Attestation :: "attestationPolicy option"
  cf_DownloadProgress :: bool

definition parseRepository :: "string \<Rightarrow> gerror + string \<times> string" where
  "parseRepository v =
     (if v \<noteq> trim_space v \<or> length v = 0 \<or> length v > 141 \<or> count_list v (CHR ''/'') \<noteq> 1
      then Inl (Errorf ''selfupdate: repository must be owner/repo, got %q'' [AStr v])
      else
        (let parts = split_two (CHR ''/'') v; p0 = parts ! 0; p1 = parts ! 1
         in if length p0 > 39 \<or> length p1 > 100 \<or> \<not> match_string ownerPattern p0
               \<or> \<not> match_string repositoryPattern p1 \<or> p0 = ''.'' \<or> p0 = ''..'' \<or> p1 = ''.'' \<or> p1 = ''..''
            then Inl (Errorf ''selfupdate: invalid repository %q'' [AStr v])
            else Inr (p0, p1)))"

definition validateCurrentVersion :: "semver_lib \<Rightarrow> string \<Rightarrow> gerror option" where
  "validateCurrentVersion sv version =
     (if length version > 128 \<or> trim_space version \<noteq> version
         \<or> contains_any version [CHR 0x00, CHR 0x0D, CHR 0x0A, CHR 0x09]
      then Some (Errorf ''selfupdate: invalid current version %q'' [AStr version])
      else if has_prefix version ''v'' \<and> \<not> isStableVersion sv version
      then Some (Errorf ''selfupdate: version beginning with v must be exact vMAJOR.MINOR.PATCH, got %q''
        [AStr version])
      else None)"

definition invalid_command :: "string \<Rightarrow> bool" where
  "invalid_command command \<longleftrightarrow>
     trim_space command \<noteq> command \<or> length command = 0 \<or> length command > 100
     \<or> \<not> match_string commandPattern command \<or> command = ''.'' \<or> command = ''..''"

definition check_attestation_policy ::
  "attestationPolicy option \<Rightarrow> gerror + string \<times> verifier option" where
  "check_attestation_policy policy =
     (case policy of
        None \<Rightarrow> Inr ([], None)
      | Some p \<Rightarrow>
          (case validateAttestationWorkflow (ap_SignerWorkflow p) of
             Some e \<Rightarrow> Inl e
           | None \<Rightarrow>
               if ap_Verifier p = None
               then Inl (ErrorString ''selfupdate: AttestationPolicy requires a Verifier; use sigstore.New() from github.com/joshuadavidthomas/go-selfupdate/sigstore'')
               else Inr (ap_SignerWorkflow p, ap_Verifier p)))"

text \<open>\<^verbatim>\<open>New\<close>; \<open>addr\<close> is the address of the new updater.\<close>

definition New :: "libs \<Rightarrow> string \<Rightarrow> string \<Rightarrow> nat \<Rightarrow> config \<Rightarrow> updater io" where
  "New lb goos goarch addr config =
     (case parseRepository (cf_Repository config) of
        Inl e \<Rightarrow> fail e
      | Inr (owner, repository) \<Rightarrow>
          if invalid_command (cf_Command config)
          then fail (Errorf ''selfupdate: invalid command %q'' [AStr (cf_Command config)])
          else (case validateCurrentVersion (lb_semver lb) (cf_CurrentVersion config) of
            Some e \<Rightarrow> fail e
          | None \<Rightarrow>
              if trim_space (cf_GitHubToken config) \<noteq> cf_GitHubToken config
                 \<or> contains_any (cf_GitHubToken config) [CHR 0x0D, CHR 0x0A]
              then fail (ErrorString ''selfupdate: GitHub token must not have surrounding whitespace or line breaks'')
              else (case check_attestation_policy (cf_Attestation config) of
                Inl e \<Rightarrow> fail e
              | Inr (attestationWorkflow, attestationVerifier) \<Rightarrow>
                  bindE (wrapE ''selfupdate: create updater identity: %w'' [] (rand_read 32))
                    (\<lambda>binding.
                       ret \<lparr>up_addr = addr, up_owner = owner, up_repository = repository,
                            up_command = cf_Command config,
                            up_currentVersion = cf_CurrentVersion config,
                            up_currentStable = isStableVersion (lb_semver lb) (cf_CurrentVersion config),
                            up_allowDowngrade = cf_AllowDowngrade config,
                            up_httpTimeout =
                              (case cf_HTTPClient config of None \<Rightarrow> defaultTimeout | Some t \<Rightarrow> t),
                            up_githubToken = cf_GitHubToken config,
                            up_attestationWorkflow = attestationWorkflow,
                            up_attestationVerifier = attestationVerifier,
                            up_binding = binding, up_apiBaseURL = defaultAPIBaseURL,
                            up_attestationBundleHost = attestationBundleHost, up_allowHTTP = False,
                            up_downloadIdleTimeout = defaultDownloadIdleTimeout,
                            up_downloadProgress = cf_DownloadProgress config, up_goos = goos,
                            up_goarch = goarch, up_beforeCommit = None\<rparr>))))"

definition expectedNames :: "string \<Rightarrow> string \<Rightarrow> string \<Rightarrow> gerror + string \<times> string" where
  "expectedNames command goos goarch =
     (if goarch \<noteq> ''amd64'' \<and> goarch \<noteq> ''arm64''
      then Inl (Errorf ''selfupdate: unsupported architecture %q'' [AStr goarch])
      else if goos = ''linux'' \<or> goos = ''darwin''
      then Inr (command @ ''_'' @ goos @ ''_'' @ goarch @ ''.tar.gz'', command)
      else if goos = ''windows''
      then Inr (command @ ''_windows_'' @ goarch @ ''.zip'', command @ ''.exe'')
      else Inl (Errorf ''selfupdate: unsupported operating system %q'' [AStr goos]))"

section \<open>The executable\<close>

text \<open>\<^verbatim>\<open>os.Executable\<close>, \<^verbatim>\<open>filepath.Abs\<close> and \<^verbatim>\<open>filepath.EvalSymlinks\<close> read the world.\<close>

definition executablePath :: "string io" where
  "executablePath = syscall (askE exe_name)"

definition filepath_abs :: "string \<Rightarrow> string io" where
  "filepath_abs p = syscall (askE (\<lambda>w. exe_abs w p))"

definition evalSymlinks :: "string \<Rightarrow> path io" where
  "evalSymlinks p = syscall (\<lambda>w.
     case map_of (exe_links w) p of None \<Rightarrow> (Inl ErrNotExist, w) | Some q \<Rightarrow> (Inr q, w))"

definition resolveExecutable :: "path io" where
  "resolveExecutable =
     bindE (wrapE ''selfupdate: locate executable: %w'' [] executablePath)
       (\<lambda>path.
          if path = [] \<or> CHR 0x00 \<in> set path
          then fail (ErrorString ''selfupdate: executable path is empty or invalid'')
          else bindE (wrapE ''selfupdate: make executable path absolute: %w'' [] (filepath_abs path))
            (\<lambda>abs. wrapE ''selfupdate: resolve executable symlinks: %w'' [] (evalSymlinks abs)))"

text \<open>\<^verbatim>\<open>hashExecutable\<close>: the digest of a regular file and its permission bits.\<close>

definition hash_opened :: "libs \<Rightarrow> os_file \<Rightarrow> (bytes \<times> nat) io" where
  "hash_opened lb f =
     bindE (wrapE ''selfupdate: stat executable: %w'' [] (os_stat f))
       (\<lambda>info.
          if n_kind info \<noteq> Regular
          then fail (ErrorString ''selfupdate: executable is not a regular file'')
          else bindE (wrapE ''selfupdate: read %s: %w'' [AStr ''executable''] (os_content f))
            (\<lambda>content.
               bindE (copyBounded (contextReader (syscall (ret ()))) no_write (file_stream content)
                   maxBinaryBytes ''executable'')
                 (\<lambda>out. ret (lb_sha256 lb out, n_perm info mod 512))))"

definition hashExecutable :: "libs \<Rightarrow> path \<Rightarrow> (bytes \<times> nat) io" where
  "hashExecutable lb path =
     bindE (wrapE ''selfupdate: open executable: %w'' [] (os_open path))
       (\<lambda>f. finallyE (hash_opened lb f) (os_close f))"

section \<open>Check\<close>

definition verify_provenance ::
  "libs \<Rightarrow> updater \<Rightarrow> releaseInfo \<Rightarrow> releaseAsset \<Rightarrow> provenanceRecord option io" where
  "verify_provenance lb u release asset =
     (if up_attestationWorkflow u = [] then ret None
      else (case up_attestationVerifier u of
              None \<Rightarrow> fail (SysError ''nil pointer dereference'')
            | Some v \<Rightarrow>
                bindE (wrapE ''selfupdate: verify artifact attestation: %w'' []
                    (verifyAttestation lb u v release asset))
                  (\<lambda>record. ret (Some record))))"

definition update_available :: "libs \<Rightarrow> updater \<Rightarrow> string \<Rightarrow> bool" where
  "update_available lb u version \<longleftrightarrow>
     up_currentStable u \<and> sv_compare (lb_semver lb) (up_currentVersion u) version < 0"

definition buildPlan ::
  "libs \<Rightarrow> updater \<Rightarrow> releaseInfo \<Rightarrow> releaseAsset \<Rightarrow> string \<Rightarrow> bool \<Rightarrow> plan io" where
  "buildPlan lb u release asset memberName targeted =
     bindE (verify_provenance lb u release asset)
       (\<lambda>provenance.
          bindE resolveExecutable
            (\<lambda>executable.
               if base_of executable \<noteq> memberName
               then fail (Errorf ''selfupdate: executable name %q does not match archive member %q''
                 [AStr (base_of executable), AStr memberName])
               else bindE (hashExecutable lb executable)
                 (\<lambda>(executableHash, mode).
                    thenE ctx_check
                      (ret \<lparr>pl_updater = up_addr u, pl_binding = up_binding u,
                            pl_currentVersion = up_currentVersion u,
                            pl_availableVersion = rel_Version release,
                            pl_comparable = up_currentStable u,
                            pl_updateAvailable = update_available lb u (rel_Version release),
                            pl_targeted = targeted, pl_release = release,
                            pl_assetName = ra_name asset, pl_assetURL = ra_downloadURL asset,
                            pl_assetSize = ra_size asset, pl_archiveDigest = ra_digest asset,
                            pl_provenance = provenance, pl_executable = executable,
                            pl_executableHash = executableHash, pl_goos = up_goos u,
                            pl_goarch = up_goarch u\<rparr>))))"

text \<open>The receiver and the context may be nil.\<close>

definition Check :: "libs \<Rightarrow> updater option \<Rightarrow> bool \<Rightarrow> plan io" where
  "Check lb receiver ctx =
     (case receiver of
        None \<Rightarrow> fail (ErrorString ''selfupdate: nil updater'')
      | Some u \<Rightarrow>
          if \<not> ctx then fail (ErrorString ''selfupdate: nil context'')
          else bindE (liftE (expectedNames (up_command u) (up_goos u) (up_goarch u)))
            (\<lambda>(assetName, memberName).
               bindE (fetchLatestRelease lb u assetName)
                 (\<lambda>(release, asset). buildPlan lb u release asset memberName False)))"

definition CheckVersion :: "libs \<Rightarrow> updater option \<Rightarrow> bool \<Rightarrow> string \<Rightarrow> plan io" where
  "CheckVersion lb receiver ctx version =
     (case receiver of
        None \<Rightarrow> fail (ErrorString ''selfupdate: nil updater'')
      | Some u \<Rightarrow>
          if \<not> ctx then fail (ErrorString ''selfupdate: nil context'')
          else if \<not> isStableVersion (lb_semver lb) version
          then fail (Errorf ''selfupdate: target version %q is not exact vMAJOR.MINOR.PATCH'' [AStr version])
          else bindE (liftE (expectedNames (up_command u) (up_goos u) (up_goarch u)))
            (\<lambda>(assetName, memberName).
               bindE (fetchReleaseByTag lb u version assetName)
                 (\<lambda>(release, asset). buildPlan lb u release asset memberName True)))"

section \<open>Reading a plan\<close>

definition plan_CurrentVersion :: "plan option \<Rightarrow> string" where
  "plan_CurrentVersion p = (case p of None \<Rightarrow> [] | Some p \<Rightarrow> pl_currentVersion p)"

definition plan_AvailableVersion :: "plan option \<Rightarrow> string" where
  "plan_AvailableVersion p = (case p of None \<Rightarrow> [] | Some p \<Rightarrow> pl_availableVersion p)"

definition plan_AssetName :: "plan option \<Rightarrow> string" where
  "plan_AssetName p = (case p of None \<Rightarrow> [] | Some p \<Rightarrow> pl_assetName p)"

definition plan_VersionsComparable :: "plan option \<Rightarrow> bool" where
  "plan_VersionsComparable p \<longleftrightarrow> (case p of None \<Rightarrow> False | Some p \<Rightarrow> pl_comparable p)"

definition plan_UpdateAvailable :: "plan option \<Rightarrow> bool" where
  "plan_UpdateAvailable p \<longleftrightarrow> (case p of None \<Rightarrow> False | Some p \<Rightarrow> pl_updateAvailable p)"

definition plan_Release :: "plan option \<Rightarrow> releaseInfo" where
  "plan_Release p = (case p of None \<Rightarrow> no_release | Some p \<Rightarrow> pl_release p)"

section \<open>Apply\<close>

text \<open>The guards before anything is touched.\<close>

definition apply_guards ::
  "libs \<Rightarrow> updater option \<Rightarrow> bool \<Rightarrow> plan option \<Rightarrow> gerror + updater \<times> plan" where
  "apply_guards lb receiver ctx pl =
     (case receiver of
        None \<Rightarrow> Inl (ErrorString ''selfupdate: nil updater'')
      | Some u \<Rightarrow>
          if \<not> ctx then Inl (ErrorString ''selfupdate: nil context'')
          else (case pl of
            None \<Rightarrow> Inl (ErrorString ''selfupdate: nil plan'')
          | Some p \<Rightarrow>
              if pl_updater p \<noteq> up_addr u \<or> pl_binding p \<noteq> up_binding u
              then Inl (ErrorString ''selfupdate: plan belongs to a different updater'')
              else if \<not> up_currentStable u \<or> \<not> pl_comparable p
              then Inl (Errorf ''selfupdate: current version %q is not a stable version''
                [AStr (up_currentVersion u)])
              else if \<not> isStableVersion (lb_semver lb) (pl_availableVersion p)
              then Inl (Errorf ''selfupdate: release %q is not a stable version''
                [AStr (pl_availableVersion p)])
              else
                (let newer = pl_updateAvailable p
                   \<and> sv_compare (lb_semver lb) (pl_currentVersion p) (pl_availableVersion p) < 0
                 in if \<not> newer \<and> \<not> (pl_targeted p \<and> up_allowDowngrade u)
                    then Inl (Errorf ''selfupdate: release %q is not strictly newer than %q (targeted downgrades require AllowDowngrade)''
                      [AStr (pl_availableVersion p), AStr (pl_currentVersion p)])
                    else if pl_goos p \<noteq> up_goos u \<or> pl_goarch p \<noteq> up_goarch u
                    then Inl (ErrorString ''selfupdate: plan platform does not match updater'')
                    else if up_attestationWorkflow u \<noteq> []
                            \<and> (case pl_provenance p of None \<Rightarrow> True | Some r \<Rightarrow> \<not> matches r u p)
                    then Inl (ErrorString ''selfupdate: plan has no matching verified provenance record'')
                    else Inr (u, p))))"

text \<open>\<^verbatim>\<open>if err != nil { return Result{}, err }\<close>, and deferred functions, which see the result.\<close>

type_synonym outcome = "result \<times> gerror option"

definition attempt :: "'a io \<Rightarrow> ('a \<Rightarrow> outcome prog) \<Rightarrow> outcome prog" where
  "attempt m k = tryE m (\<lambda>e. give (no_result, Some e)) k"

definition deferred ::
  "outcome prog \<Rightarrow> (result \<Rightarrow> gerror option \<Rightarrow> gerror option prog) \<Rightarrow> outcome prog" where
  "deferred m c w =
     (case m w of (out, w1) \<Rightarrow>
        (case c (fst out) (snd out) w1 of (e, w2) \<Rightarrow> ((fst out, e), w2)))"

definition reject :: "gerror \<Rightarrow> outcome prog" where
  "reject e = give (no_result, Some e)"

text \<open>\<^verbatim>\<open>if err := ...; err != nil { returnErr = errors.Join(returnErr, fmt.Errorf(...)) }\<close>\<close>

definition joining :: "string \<Rightarrow> unit io \<Rightarrow> gerror option \<Rightarrow> gerror option prog" where
  "joining f m e = tryE m (\<lambda>e1. give (Some (errors_join e (Wrapf f [] e1)))) (\<lambda>_. give e)"

definition remove_existing :: "path \<Rightarrow> unit io" where
  "remove_existing p =
     handleE (os_remove p) (\<lambda>e. if errors_is e ErrNotExist then ret () else fail e)"

definition release_lock ::
  "platform \<Rightarrow> os_file \<Rightarrow> result \<Rightarrow> gerror option \<Rightarrow> gerror option prog" where
  "release_lock pf lk r e =
     joining ''selfupdate: release executable lock: %w'' (pf_release pf (Some lk)) e"

definition close_archive :: "os_file \<Rightarrow> result \<Rightarrow> gerror option \<Rightarrow> gerror option prog" where
  "close_archive f r e w =
     (case joining ''selfupdate: close downloaded archive: %w'' (os_close f) e w of
        (e1, w1) \<Rightarrow>
          joining ''selfupdate: remove downloaded archive: %w'' (remove_existing (f_path f)) e1 w1)"

definition remove_stage :: "path \<Rightarrow> result \<Rightarrow> gerror option \<Rightarrow> gerror option prog" where
  "remove_stage stage r e =
     (if res_Committed r then give e
      else joining ''selfupdate: remove staged executable: %w'' (remove_existing stage) e)"

definition result_of :: "plan \<Rightarrow> path \<Rightarrow> bool \<Rightarrow> replacementResult \<Rightarrow> result" where
  "result_of p target pending outcome =
     (if committed outcome
      then \<lparr>res_Committed = True, res_CleanupPending = (pending \<or> cleanupPending outcome),
            res_PreviousVersion = pl_currentVersion p, res_Version = pl_availableVersion p,
            res_Executable = Some target\<rparr>
      else no_result)"

text \<open>From the context check to the end.\<close>

definition apply_commit ::
  "platform \<Rightarrow> updater \<Rightarrow> plan \<Rightarrow> path \<Rightarrow> bool \<Rightarrow> path \<Rightarrow> outcome prog" where
  "apply_commit pf u p target pending stage w =
     attempt ctx_check
       (\<lambda>_ w. case pf_replace pf stage target w of
          ((outcome, replaceErr), w') \<Rightarrow>
            (if \<not> committed outcome \<and> replaceErr = None
             then (no_result, Some (ErrorString ''selfupdate: replacement returned without committing''))
             else (result_of p target pending outcome,
                   map_option (Wrapf ''selfupdate: replace executable: %w'' []) replaceErr),
             w'))
       (case up_beforeCommit u of None \<Rightarrow> w | Some hook \<Rightarrow> hook w)"

text \<open>With the stage file in place.\<close>

definition apply_staged ::
  "libs \<Rightarrow> platform \<Rightarrow> updater \<Rightarrow> plan \<Rightarrow> path \<Rightarrow> bool \<Rightarrow> path \<Rightarrow> outcome prog" where
  "apply_staged lb pf u p target pending stage =
     attempt (hashExecutable lb target)
       (\<lambda>(currentHash, _).
          if currentHash \<noteq> pl_executableHash p
          then reject (ErrorString ''selfupdate: executable changed while the update was downloading'')
          else apply_commit pf u p target pending stage)"

text \<open>With the archive file open: download, verify, stage.\<close>

definition apply_archive ::
  "libs \<Rightarrow> platform \<Rightarrow> updater \<Rightarrow> plan \<Rightarrow> path \<Rightarrow> nat \<Rightarrow> bool \<Rightarrow> os_file \<Rightarrow> outcome prog" where
  "apply_archive lb pf u p target mode pending f =
     attempt
       (downloadToFile lb u (pl_assetURL p) maxArchiveBytes ''release asset'' (pl_assetSize p) (os_write f))
       (\<lambda>archiveDigest.
          if archiveDigest \<noteq> pl_archiveDigest p
          then reject (Errorf ''selfupdate: SHA-256 mismatch for %s'' [AStr (pl_assetName p)])
          else attempt (wrapE ''selfupdate: sync downloaded archive: %w'' [] (os_sync f))
            (\<lambda>_. attempt (wrapE ''selfupdate: stat downloaded archive: %w'' [] (os_stat f))
              (\<lambda>info. attempt (wrapE ''selfupdate: seek downloaded archive: %w'' [] (os_seek_start f))
                (\<lambda>_. attempt (liftE (expectedNames (up_command u) (pl_goos p) (pl_goarch p)))
                  (\<lambda>(_, memberName).
                     attempt
                       (wrapE ''selfupdate: stage executable: %w'' []
                         (stageExecutable (lb_archive lb) pf target mode (pl_assetName p) f
                           (int (length (n_content info))) memberName))
                       (\<lambda>stage. deferred (apply_staged lb pf u p target pending stage)
                          (remove_stage stage)))))))"

text \<open>With the lock held.\<close>

definition apply_locked :: "libs \<Rightarrow> platform \<Rightarrow> updater \<Rightarrow> plan \<Rightarrow> path \<Rightarrow> outcome prog" where
  "apply_locked lb pf u p target =
     attempt resolveExecutable
       (\<lambda>lockedTarget.
          if lockedTarget \<noteq> pl_executable p
          then reject (ErrorString ''selfupdate: executable path changed since Check'')
          else attempt ctx_check
            (\<lambda>_ w. case pf_cleanupStaleBackups pf target w of
               ((pending, Some e), w1) \<Rightarrow>
                 reject (Wrapf ''selfupdate: clean stale backups: %w'' [] e) w1
             | ((pending, None), w1) \<Rightarrow>
                 attempt (wrapE ''selfupdate: clean stale staged executables: %w'' []
                     (cleanupStaleStages target))
                   (\<lambda>_. attempt (wrapE ''selfupdate: clean stale downloaded archives: %w'' []
                       (cleanupStaleArchives target))
                     (\<lambda>_. attempt (hashExecutable lb target)
                       (\<lambda>(currentHash, mode).
                          if currentHash \<noteq> pl_executableHash p
                          then reject (ErrorString ''selfupdate: executable changed since Check'')
                          else attempt (wrapE ''selfupdate: create archive file: %w'' []
                              (createArchiveFile target))
                            (\<lambda>f. deferred (apply_archive lb pf u p target mode pending f)
                               (close_archive f))))) w1))"

definition lock_path :: "path \<Rightarrow> path" where
  "lock_path target = Path (dir_of target) (base_of target @ ''.selfupdate.lock'')"

definition Apply ::
  "libs \<Rightarrow> platform \<Rightarrow> updater option \<Rightarrow> bool \<Rightarrow> plan option \<Rightarrow> world \<Rightarrow> (outcome \<times> world) option" where
  "Apply lb pf receiver ctx pl w =
     (case apply_guards lb receiver ctx pl of
        Inl e \<Rightarrow> Some (reject e w)
      | Inr (u, p) \<Rightarrow>
          (case resolveExecutable w of
             (Inl e, w1) \<Rightarrow> Some (reject e w1)
           | (Inr target, w1) \<Rightarrow>
               if target \<noteq> pl_executable p
               then Some (reject (ErrorString ''selfupdate: executable path changed since Check'') w1)
               else (case pf_acquireFileLock pf (lock_path target) w1 of
                       None \<Rightarrow> None
                     | Some (Inl e, w2) \<Rightarrow>
                         Some (reject (Wrapf ''selfupdate: lock executable: %w'' [] e) w2)
                     | Some (Inr lk, w2) \<Rightarrow>
                         Some (deferred (apply_locked lb pf u p target) (release_lock pf lk) w2))))"

section \<open>Properties of the configuration\<close>

lemma parseRepository_iff:
  "parseRepository s = Inr (own, rep) \<longleftrightarrow>
     s = own @ ''/'' @ rep \<and> length own \<le> 39 \<and> length rep \<le> 100
     \<and> own \<noteq> [] \<and> hd own \<in> set alnum \<and> last own \<in> set alnum \<and> set own \<subseteq> set name_chars
     \<and> rep \<noteq> [] \<and> set rep \<subseteq> set name_chars \<and> rep \<noteq> ''.'' \<and> rep \<noteq> ''..''"
  (is "_ \<longleftrightarrow> ?R")
proof
  assume p: "parseRepository s = Inr (own, rep)"
  then have c: "count_list s (CHR ''/'') = 1"
    by (auto simp: parseRepository_def split: if_splits)
  then have "CHR ''/'' \<in> set s" by (metis count_list_0_iff zero_neq_one)
  then obtain a b where s: "s = a @ CHR ''/'' # b" "CHR ''/'' \<notin> set a" by (meson split_list_first)
  with p show ?R
    by (auto simp: parseRepository_def Let_def match_string_iff in_ownerPattern in_repositoryPattern
        split: if_splits)
next
  assume r: ?R
  have slash: "CHR ''/'' \<notin> set name_chars" by code_simp
  then have ns: "CHR ''/'' \<notin> set own" "CHR ''/'' \<notin> set rep" using r by auto
  have split: "split_two (CHR ''/'') s = [own, rep]" using r ns by simp
  have count: "count_list s (CHR ''/'') = 1" using r ns by (simp add: count_list_append)
  have nosp: "set p \<inter> set name_chars = {}" if "p \<in> set utf8_spaces" for p
  proof -
    have "list_all (list_all (\<lambda>c. c \<notin> set name_chars)) utf8_spaces" by code_simp
    with that show ?thesis unfolding list_all_iff by blast
  qed
  have ne: "p \<noteq> []" if "p \<in> set utf8_spaces" for p using that by (auto simp: utf8_spaces_def)
  have "trim_space s = s"
    unfolding trim_space_id_iff
  proof (intro conjI ballI notI)
    fix p assume p: "p \<in> set utf8_spaces" "has_prefix s p"
    then obtain q where "s = p @ q" by (auto simp: has_prefix_iff)
    then have "hd p = hd own" using r ne [OF p(1)] by (metis hd_append2)
    with nosp [OF p(1)] ne [OF p(1)] r show False
      by (metis IntI emptyE hd_in_set subsetD)
  next
    fix p assume p: "p \<in> set utf8_spaces" "has_suffix s p"
    then obtain q where "s = q @ p" by (auto simp: has_suffix_iff)
    then have "last p = last rep" using r ne [OF p(1)] by (metis append_is_Nil_conv last_appendR)
    with nosp [OF p(1)] ne [OF p(1)] r show False
      by (metis IntI emptyE last_in_set subsetD)
  qed
  moreover have dot: "CHR ''.'' \<notin> set alnum" by code_simp
  ultimately show "parseRepository s = Inr (own, rep)"
    using r split count dot
    by (auto simp: parseRepository_def Let_def match_string_iff in_ownerPattern in_repositoryPattern)
qed

text \<open>C30 A repository text is accepted exactly when it is an owner and a name joined by one slash, each within its
  length and character set, and the name is no dot segment.\<close>

theorem repository_accepted:
  "parseRepository s = Inr (own, rep) \<longleftrightarrow>
     s = own @ ''/'' @ rep \<and> length own \<le> 39 \<and> length rep \<le> 100
     \<and> own \<noteq> [] \<and> hd own \<in> set alnum \<and> last own \<in> set alnum \<and> set own \<subseteq> set name_chars
     \<and> rep \<noteq> [] \<and> set rep \<subseteq> set name_chars \<and> rep \<noteq> ''.'' \<and> rep \<noteq> ''..''"
  by (rule parseRepository_iff)

text \<open>C36 The asset names of the supported platforms are pairwise different, so no release asset can be taken for another
  platform's.\<close>

theorem asset_names_distinct:
  assumes "expectedNames command goos goarch = Inr (asset, member)"
    and "expectedNames command goos' goarch' = Inr (asset', member')"
    and "asset = asset'"
  shows "goos = goos' \<and> goarch = goarch' \<and> member = member'"
  using assms by (auto simp: expectedNames_def split: if_splits)

theorem asset_names_distinct_witness:
  "expectedNames ''tool'' ''linux'' ''arm64'' = Inr (''tool_linux_arm64.tar.gz'', ''tool'')
   \<and> (''linux'' = ''linux'' \<and> ''arm64'' = ''arm64'' \<and> ''tool'' = ''tool'')"
proof -
  have n: "expectedNames ''tool'' ''linux'' ''arm64'' = Inr (''tool_linux_arm64.tar.gz'', ''tool'')"
    by code_simp
  from n asset_names_distinct [OF n n refl] show ?thesis by blast
qed

text \<open>What \<^verbatim>\<open>New\<close> establishes.\<close>

definition updater_ok :: "libs \<Rightarrow> updater \<Rightarrow> bool" where
  "updater_ok lb u \<longleftrightarrow>
     length (up_binding u) = 32 \<and> up_beforeCommit u = None \<and> \<not> up_allowHTTP u
     \<and> up_apiBaseURL u = defaultAPIBaseURL \<and> up_attestationBundleHost u = attestationBundleHost
     \<and> (up_currentStable u \<longleftrightarrow> isStableVersion (lb_semver lb) (up_currentVersion u))
     \<and> (up_attestationWorkflow u = [] \<and> up_attestationVerifier u = None
        \<or> validateAttestationWorkflow (up_attestationWorkflow u) = None \<and> up_attestationVerifier u \<noteq> None)
     \<and> parseRepository (up_owner u @ ''/'' @ up_repository u) = Inr (up_owner u, up_repository u)
     \<and> \<not> invalid_command (up_command u)"

lemma parseRepository_join: "parseRepository s = Inr (own, rep) \<Longrightarrow> s = own @ ''/'' @ rep"
  by (simp add: parseRepository_iff)

lemma rand_read_length: "rand_read n w = (Inr bs, w') \<Longrightarrow> length bs = n"
  by (auto simp: rand_read_def syscall_def split: prod.splits option.splits)

text \<open>C29 Every updater that \<^verbatim>\<open>New\<close> returns is well formed: fixed API base and bundle host, HTTPS only, no test hook, a 32-byte
  identity, a valid repository and command, and a workflow exactly when there is a verifier.\<close>

theorem New_ok:
  assumes "New lb goos goarch addr config w = (Inr u, w')"
  shows "updater_ok lb u"
proof -
  obtain own rep where r: "parseRepository (cf_Repository config) = Inr (own, rep)"
    using assms by (auto simp: New_def fail_Inr split: sum.splits)
  with assms have c: "\<not> invalid_command (cf_Command config)"
    "validateCurrentVersion (lb_semver lb) (cf_CurrentVersion config) = None"
    by (auto simp: New_def fail_Inr split: if_splits option.splits)
  obtain wf v where p: "check_attestation_policy (cf_Attestation config) = Inr (wf, v)"
    using assms r c by (auto simp: New_def fail_Inr split: if_splits sum.splits)
  then have pol: "wf = [] \<and> v = None \<or> validateAttestationWorkflow wf = None \<and> v \<noteq> None"
    by (auto simp: check_attestation_policy_def split: option.splits if_splits)
  from assms r c p obtain binding w1 where b: "rand_read 32 w = (Inr binding, w1)"
    and u: "up_binding u = binding" "up_beforeCommit u = None" "\<not> up_allowHTTP u"
      "up_apiBaseURL u = defaultAPIBaseURL" "up_attestationBundleHost u = attestationBundleHost"
      "up_currentStable u = isStableVersion (lb_semver lb) (cf_CurrentVersion config)"
      "up_currentVersion u = cf_CurrentVersion config" "up_attestationWorkflow u = wf"
      "up_attestationVerifier u = v" "up_owner u = own" "up_repository u = rep" "up_command u = cf_Command config"
    by (auto simp: New_def Inr_simps split: if_splits)
  with rand_read_length [OF b] pol r parseRepository_join [OF r] c(1) show ?thesis
    by (simp add: updater_ok_def)
qed

definition sample_config :: config where
  "sample_config =
     \<lparr>cf_Repository = ''acme/tool'', cf_Command = ''tool'', cf_CurrentVersion = ''v1.0.0'',
      cf_AllowDowngrade = False, cf_HTTPClient = None, cf_GitHubToken = ''secret'',
      cf_Attestation = Some \<lparr>ap_SignerWorkflow = ''.github/workflows/release.yml'',
        ap_Verifier = Some (\<lambda>_ _. ret ())\<rparr>, cf_DownloadProgress = False\<rparr>"

theorem New_ok_witness:
  "\<exists>u w'. New sample_libs ''linux'' ''amd64'' 1 sample_config empty_world = (Inr u, w') \<and> updater_ok sample_libs u"
proof -
  have "case New sample_libs ''linux'' ''amd64'' 1 sample_config empty_world of
      (Inr u, w') \<Rightarrow> True | (Inl e, w') \<Rightarrow> False"
    by code_simp
  then obtain u w' where run: "New sample_libs ''linux'' ''amd64'' 1 sample_config empty_world = (Inr u, w')"
    by (auto split: prod.splits sum.splits)
  from run New_ok [OF run] show ?thesis by blast
qed

end
