(* ===== verification/Platform.thy ===== *)
theory Platform
  imports Updater
begin

text \<open>
  \<^verbatim>\<open>Apply\<close> over any platform that keeps its contract: the locale \<open>updating_platform\<close> adds the lock to
  the replacement's contract, and the rule \<open>Apply_rule\<close> reduces a property of \<^verbatim>\<open>Apply\<close> to one of
  the commit, for every environment that leaves the temporary names alone.
\<close>

section \<open>Rules of the parts that do not depend on the platform\<close>

lemma triple_attempt:
  "hoare P m R F \<Longrightarrow> (\<And>e w. F e w \<Longrightarrow> Q (no_result, Some e) w) \<Longrightarrow> (\<And>a. triple (R a) (k a) Q) \<Longrightarrow>
   triple P (attempt m k) Q"
  unfolding attempt_def by (rule triple_try) (auto intro: triple_give)

lemma triple_reject: "(\<And>w. P w \<Longrightarrow> Q (no_result, Some e) w) \<Longrightarrow> triple P (reject e) Q"
  by (simp add: triple_def reject_def give_def)

lemma triple_fact: "(b \<Longrightarrow> triple P m Q) \<Longrightarrow> triple (\<lambda>w. P w \<and> b) m Q"
  by (auto simp: triple_def)

lemma triple_ex: "(\<And>x. triple (P x) m Q) \<Longrightarrow> triple (\<lambda>w. \<exists>x. P x w) m Q"
  by (fastforce simp: triple_def)

lemma triple_deferred:
  assumes "triple P m R" and "\<And>r e. triple (R (r, e)) (c r e) (\<lambda>e'. Q (r, e'))"
  shows "triple P (deferred m c) Q"
  unfolding triple_def
proof (intro allI impI)
  fix w
  assume "P w"
  obtain out w1 where m: "m w = (out, w1)" by (cases "m w")
  obtain e' w2 where c: "c (fst out) (snd out) w1 = (e', w2)" by (cases "c (fst out) (snd out) w1")
  from assms(1) \<open>P w\<close> m have "R (fst out, snd out) w1" by (auto simp: triple_def)
  from tripleD [OF assms(2) this c] have "Q (fst out, e') w2" .
  with m c show "case deferred m c w of (a, w') \<Rightarrow> Q a w'" by (simp add: deferred_def)
qed

text \<open>What the returned error still contains after the deferred functions joined theirs to it.\<close>

definition carries :: "gerror option \<Rightarrow> gerror option \<Rightarrow> bool" where
  "carries inner err \<longleftrightarrow>
     (\<forall>i. inner = Some i \<longrightarrow> (\<exists>e. err = Some e \<and> (\<forall>t. errors_is i t \<longrightarrow> errors_is e t)))"

lemma carries_None [simp]: "carries None err"
  by (simp add: carries_def)

lemma carries_wrap: "carries x (map_option (Wrapf f a) x)"
  by (auto simp: carries_def)

lemma carries_join: "carries x err \<Longrightarrow> carries x (Some (errors_join err e))"
  using errors_is_join_left by (fastforce simp: carries_def)

text \<open>
  The final assertion about a result and an error: the commit's own error \<open>re\<close> is in the returned
  one, and \<open>Q\<close> holds of the result and \<open>re\<close>.
\<close>

definition final ::
  "(path \<Rightarrow> bool) \<Rightarrow> (result \<Rightarrow> gerror option \<Rightarrow> world \<Rightarrow> bool) \<Rightarrow> outcome \<Rightarrow> world \<Rightarrow> bool" where
  "final S Q out w \<longleftrightarrow> stable_env S w \<and> (\<exists>re. Q (fst out) re w \<and> carries re (snd out))"

text \<open>Names of \<open>S\<close> that are neither stage files nor downloaded archives of the target.\<close>

definition is_archive :: "path \<Rightarrow> path \<Rightarrow> bool" where
  "is_archive target p \<longleftrightarrow> dir_of p = dir_of target \<and> stale_name target ''archive'' (base_of p)"

abbreviation kept :: "(path \<Rightarrow> bool) \<Rightarrow> path \<Rightarrow> path \<Rightarrow> bool" where
  "kept S target \<equiv> (\<lambda>q. S q \<and> \<not> is_stage target q \<and> \<not> is_archive target q)"

lemma is_archive_temp: "is_archive target p \<Longrightarrow> is_temp target p"
  using stale_name_temp [of target "''archive''" "base_of p"]
  by (cases p) (simp add: is_archive_def)

lemma outer_kept: "local_to (outer S target) A \<Longrightarrow> local_to (kept S target) A"
  by (erule local_to_mono) (use is_stage_temp is_archive_temp in blast)

section \<open>Joining the errors of deferred calls\<close>

lemma joining_rule:
  assumes "hoare (\<lambda>w. stable_env S w \<and> Q r re w) m (\<lambda>_ w. stable_env S w \<and> Q r re w)
      (\<lambda>_ w. stable_env S w \<and> Q r re w)"
    and "carries re e"
  shows "triple (\<lambda>w. stable_env S w \<and> Q r re w) (joining f m e)
    (\<lambda>e' w. stable_env S w \<and> Q r re w \<and> carries re e')"
  unfolding joining_def
  by (rule triple_try [OF assms(1)]; rule triple_give) (use assms(2) carries_join in auto)

lemma triple_final:
  assumes "\<And>re. carries re e \<Longrightarrow> triple (\<lambda>w. stable_env S w \<and> Q r re w) m
      (\<lambda>e' w. stable_env S w \<and> Q r re w \<and> carries re e')"
  shows "triple (final S Q (r, e)) m (\<lambda>e'. final S Q (r, e'))"
  unfolding triple_def
proof (intro allI impI)
  fix w
  assume "final S Q (r, e) w"
  then obtain re where re: "stable_env S w \<and> Q r re w" "carries re e" by (auto simp: final_def)
  obtain e' w' where m: "m w = (e', w')" by (cases "m w")
  from tripleD [OF assms [OF re(2)] re(1) m] m
  show "case m w of (e', w') \<Rightarrow> final S Q (r, e') w'" by (auto simp: final_def)
qed

text \<open>Removing a stage file or an archive keeps what is known of the other names.\<close>

lemma remove_existing_frame:
  assumes A: "local_to (except S p) A" and blind: "effect_blind A"
  shows "preserves (\<lambda>w. stable_env S w \<and> A w) (remove_existing p)"
proof -
  have "A (emit (ERemove p) (del_name p w))" if "A w" for w
    by (rule effect_blindD [OF blind not_rename(1)]) (use that local_toD [OF A same_del_name] in blast)
  then have rm: "preserves (\<lambda>w. stable_env S w \<and> A w) (os_remove p)"
    by (intro os_remove_rule [OF local_except [OF A]]) (auto simp: stable_updates)
  show ?thesis
    unfolding remove_existing_def
    by (rule hoare_handle [OF rm]) (auto intro: hoare_ret hoare_fail)
qed

lemma remove_stage_rule:
  assumes Q: "\<And>r re. local_to (kept S target) (Q r re)" "\<And>r re. effect_blind (Q r re)"
    and st: "is_stage target stage"
  shows "triple (final S Q (r, e)) (remove_stage stage r e) (\<lambda>e'. final S Q (r, e'))"
proof (rule triple_final)
  fix re
  assume c: "carries re e"
  have "local_to (except S stage) (Q r re)"
    by (rule local_to_mono [OF Q(1)]) (use st in auto)
  from joining_rule [where Q = Q, OF remove_existing_frame [OF this Q(2)] c]
  show "triple (\<lambda>w. stable_env S w \<and> Q r re w) (remove_stage stage r e)
      (\<lambda>e' w. stable_env S w \<and> Q r re w \<and> carries re e')"
    unfolding remove_stage_def by (auto intro!: triple_if triple_give c)
qed

lemma close_archive_rule:
  assumes Q: "\<And>r re. local_to (kept S target) (Q r re)" "\<And>r re. effect_blind (Q r re)"
    and f: "is_archive target (f_path f)"
  shows "triple (final S Q (r, e)) (close_archive f r e) (\<lambda>e'. final S Q (r, e'))"
proof (rule triple_final)
  fix re
  assume c: "carries re e"
  have ex: "local_to (except S (f_path f)) (Q r re)"
    by (rule local_to_mono [OF Q(1)]) (use f in auto)
  let ?P = "\<lambda>w. stable_env S w \<and> Q r re w"
  show "triple ?P (close_archive f r e) (\<lambda>e' w. stable_env S w \<and> Q r re w \<and> carries re e')"
    unfolding triple_def
  proof (intro allI impI)
    fix w
    assume w: "?P w"
    obtain e1 w1 where j1: "joining ''selfupdate: close downloaded archive: %w'' (os_close f) e w = (e1, w1)"
      by (cases "joining ''selfupdate: close downloaded archive: %w'' (os_close f) e w")
    from tripleD [OF joining_rule [where Q = Q, OF pure_calls(6) [OF local_except [OF ex]] c] w j1]
    have w1: "?P w1" "carries re e1" by auto
    obtain e2 w2 where j2: "joining ''selfupdate: remove downloaded archive: %w''
        (remove_existing (f_path f)) e1 w1 = (e2, w2)"
      by (cases "joining ''selfupdate: remove downloaded archive: %w'' (remove_existing (f_path f)) e1 w1")
    from tripleD [OF joining_rule [where Q = Q, OF remove_existing_frame [OF ex Q(2)] w1(2)] w1(1) j2]
    have "?P w2 \<and> carries re e2" by auto
    with j1 j2 show "case close_archive f r e w of (a, w') \<Rightarrow> stable_env S w' \<and> Q r re w' \<and> carries re a"
      by (simp add: close_archive_def)
  qed
qed

section \<open>Reading the executable\<close>

lemma resolve_frame:
  assumes "local_to S A"
  shows "preserves (\<lambda>w. stable_env S w \<and> A w) resolveExecutable"
proof -
  have calls: "preserves (\<lambda>w. stable_env S w \<and> A w) executablePath"
    "preserves (\<lambda>w. stable_env S w \<and> A w) (filepath_abs p)"
    "preserves (\<lambda>w. stable_env S w \<and> A w) (evalSymlinks q)" for p q
    unfolding executablePath_def filepath_abs_def evalSymlinks_def
    by (rule hoare_pure_call [OF assms]; simp add: askE_def split: option.split)+
  show ?thesis
    unfolding resolveExecutable_def
    by (rule hoare_bind [OF hoare_wrap_any [OF calls(1)]], rule hoare_if, rule hoare_fail, assumption,
        rule hoare_bind [OF hoare_wrap_any [OF calls(2)]], rule hoare_wrap_any [OF calls(3)])
qed

lemma hash_frame:
  assumes "local_to S A"
  shows "preserves (\<lambda>w. stable_env S w \<and> A w) (hashExecutable lb p)"
proof -
  let ?P = "\<lambda>w. stable_env S w \<and> A w"
  have read: "preserves ?P (contextReader (syscall (ret ())))"
    unfolding contextReader_def
    by (rule hoare_then [OF ctx_check_local syscall_ret_local [OF assms]])
  have copy: "hoare ?P (copyBounded (contextReader (syscall (ret ()))) no_write (file_stream c) maxBinaryBytes d)
      (\<lambda>_. ?P) (\<lambda>_. ?P)" for c d
    by (rule hoare_weaken [OF copyBounded_rule [where I = "\<lambda>_. ?P"]])
      (auto simp: no_write_def maxBinaryBytes_def intro: read hoare_ret)
  have body: "preserves ?P (hash_opened lb f)" for f
    unfolding hash_opened_def
    by (rule hoare_bind [OF hoare_wrap_any [OF pure_calls(2) [OF assms]]], rule hoare_if, rule hoare_fail,
        assumption, rule hoare_bind [OF hoare_wrap_any [OF pure_calls(4) [OF assms]]],
        rule hoare_bind [OF copy], rule hoare_ret)
  show ?thesis
    unfolding hashExecutable_def
    by (rule hoare_bind [OF hoare_wrap_any [OF pure_calls(1) [OF assms]]],
        rule hoare_finally [OF body]; rule pure_calls(6) [OF assms])
qed

section \<open>The contract and the rule for Apply\<close>

locale updating_platform = replacement_platform +
  assumes acquire_frame:
      "local_to (except S q) A \<Longrightarrow> stable_env S w \<and> A w \<Longrightarrow>
       pf_acquireFileLock pf q w = Some (r, w') \<Longrightarrow> stable_env S w' \<and> A w'"
    and acquire_holds: "pf_acquireFileLock pf q w = Some (Inr f, w') \<Longrightarrow> holds_lock f w'"
    and acquire_returns: "will_cancel w \<Longrightarrow> pf_acquireFileLock pf q w \<noteq> None"
    and release_frame: "local_to S A \<Longrightarrow> preserves (\<lambda>w. stable_env S w \<and> A w) (pf_release pf l)"
    and release_frees: "\<not> holds_lock f (snd (pf_release pf (Some f) w))"

text \<open>
  The bytes a plan allows to be installed: the command's member of an archive with the plan's
  digest.
\<close>

definition verified :: "libs \<Rightarrow> updater \<Rightarrow> plan \<Rightarrow> bytes \<Rightarrow> bool" where
  "verified lb u p d \<longleftrightarrow>
     0 < length d \<and>
     (\<exists>content asset member. lb_sha256 lb content = pl_archiveDigest p
        \<and> expectedNames (up_command u) (pl_goos p) (pl_goarch p) = Inr (asset, member)
        \<and> archive_select (lb_archive lb) (pl_assetName p) content (int (length content)) member = Some d)"

text \<open>
  The hypotheses of the rule: \<open>A\<close> holds before the commit, \<open>H\<close> is what hashing the executable tells,
  and the platform's replacement leads from \<open>A\<close> to \<open>Q\<close>, which speaks of the result and of the
  replacement's error.
\<close>

definition commit_law ::
  "platform \<Rightarrow> libs \<Rightarrow> updater \<Rightarrow> plan \<Rightarrow> path \<Rightarrow> (path \<Rightarrow> bool) \<Rightarrow> (world \<Rightarrow> bool) \<Rightarrow>
   (bytes \<Rightarrow> nat \<Rightarrow> bool) \<Rightarrow> (result \<Rightarrow> gerror option \<Rightarrow> world \<Rightarrow> bool) \<Rightarrow> bool" where
  "commit_law pf lb u p target S A H Q \<longleftrightarrow>
     (\<forall>stage d mode. is_stage target stage \<longrightarrow> verified lb u p d \<longrightarrow> H (pl_executableHash p) mode \<longrightarrow>
        triple (\<lambda>w. stable_env S w \<and> A w \<and> node_at w stage = Some (plain_node d (mode mod 512)))
          (pf_replace pf stage target)
          (\<lambda>r w. stable_env S w \<and> (\<forall>pending. Q (result_of p target pending (fst r)) (snd r) w)))"

definition hash_law ::
  "libs \<Rightarrow> path \<Rightarrow> (path \<Rightarrow> bool) \<Rightarrow> (world \<Rightarrow> bool) \<Rightarrow> (bytes \<Rightarrow> nat \<Rightarrow> bool) \<Rightarrow> bool" where
  "hash_law lb target S A H \<longleftrightarrow>
     hoare (\<lambda>w. stable_env S w \<and> A w) (hashExecutable lb target)
       (\<lambda>r w. (stable_env S w \<and> A w) \<and> H (fst r) (snd r)) (\<lambda>_ w. stable_env S w \<and> A w)"

definition apply_setup ::
  "platform \<Rightarrow> libs \<Rightarrow> updater \<Rightarrow> plan \<Rightarrow> path \<Rightarrow> (path \<Rightarrow> bool) \<Rightarrow> (world \<Rightarrow> bool) \<Rightarrow>
   (bytes \<Rightarrow> nat \<Rightarrow> bool) \<Rightarrow> (result \<Rightarrow> gerror option \<Rightarrow> world \<Rightarrow> bool) \<Rightarrow> bool" where
  "apply_setup pf lb u p target S A H Q \<longleftrightarrow>
     up_beforeCommit u = None \<and> (\<forall>q. is_temp target q \<longrightarrow> S q) \<and> \<not> S (lock_path target)
     \<and> local_to (outer S target) A \<and> effect_blind A
     \<and> (\<forall>r re. local_to (kept S target) (Q r re) \<and> effect_blind (Q r re))
     \<and> (\<forall>w. A w \<longrightarrow> Q no_result None w)
     \<and> commit_law pf lb u p target S A H Q \<and> hash_law lb target S A H"

lemma apply_setupI:
  assumes "up_beforeCommit u = None" "\<And>q. is_temp target q \<Longrightarrow> S q" "\<not> S (lock_path target)"
    and "local_to (outer S target) A" "effect_blind A"
    and "\<And>r re. local_to (kept S target) (Q r re)" "\<And>r re. effect_blind (Q r re)"
    and "\<And>w. A w \<Longrightarrow> Q no_result None w"
    and "commit_law pf lb u p target S A H Q" "hash_law lb target S A H"
  shows "apply_setup pf lb u p target S A H Q"
  using assms by (simp add: apply_setup_def)

lemma final_reject:
  "apply_setup pf lb u p target S A H Q \<Longrightarrow> stable_env S w \<and> A w \<Longrightarrow> final S Q (no_result, e) w"
  by (auto simp: apply_setup_def final_def intro!: exI [of _ None])

lemma triple_replaced:
  assumes "triple P m R" "\<And>a w. R a w \<Longrightarrow> Q (f a) w"
  shows "triple P (\<lambda>w. case m w of (a, w') \<Rightarrow> (f a, w')) Q"
  using assms by (fastforce simp: triple_def split: prod.splits)

lemma triple_pending:
  assumes "triple P m (\<lambda>_. R)" "\<And>e. triple R (k1 e) Q" "\<And>b. triple R (k2 b) Q"
  shows "triple P (\<lambda>w. case m w of ((b, Some e), w1) \<Rightarrow> k1 e w1 | ((b, None), w1) \<Rightarrow> k2 b w1) Q"
  unfolding triple_def
proof (intro allI impI)
  fix w
  assume "P w"
  obtain b x w1 where m: "m w = ((b, x), w1)" by (metis prod.exhaust)
  with assms(1) \<open>P w\<close> have "R w1" by (fastforce simp: triple_def)
  with assms(2,3) m show "case case m w of ((b, Some e), w1) \<Rightarrow> k1 e w1 | ((b, None), w1) \<Rightarrow> k2 b w1 of
      (a, w') \<Rightarrow> Q a w'"
    by (cases x) (auto simp: triple_def)
qed

lemma lock_path_not_temp: "\<not> is_temp target (lock_path target)"
proof
  assume "is_temp target (lock_path target)"
  then obtain r where r: "base_of target @ ''.selfupdate.lock'' = ''.'' @ base_of target @ ''.selfupdate-'' @ r"
    by (auto simp: is_temp_def lock_path_def has_prefix_iff)
  have "(base_of target @ ''.selfupdate.lock'') ! (length (base_of target) + 12) = CHR ''l''"
    by (simp add: nth_append)
  moreover have "(''.'' @ base_of target @ ''.selfupdate-'' @ r) ! (length (base_of target) + 12) = CHR ''-''"
    by (simp add: nth_append nth_Cons')
  ultimately show False using r by simp
qed

context updating_platform
begin

lemma commit_rule:
  assumes ready: "apply_setup pf lb u p target S A H Q"
    and st: "is_stage target stage" and d: "verified lb u p d" and H: "H (pl_executableHash p) mode"
  shows "triple (\<lambda>w. stable_env S w \<and> A w \<and> node_at w stage = Some (plain_node d (mode mod 512)))
    (apply_commit pf u p target pending stage) (final S Q)"
    (is "triple ?P _ _")
proof -
  let ?f = "\<lambda>r. if \<not> committed (fst r) \<and> snd r = None
      then (no_result, Some (ErrorString ''selfupdate: replacement returned without committing''))
      else (result_of p target pending (fst r),
        map_option (Wrapf ''selfupdate: replace executable: %w'' []) (snd r))"
  have replaced: "triple ?P (pf_replace pf stage target)
      (\<lambda>r w. stable_env S w \<and> (\<forall>pending. Q (result_of p target pending (fst r)) (snd r) w))"
    using ready st d H by (auto simp: apply_setup_def commit_law_def)
  have finished: "final S Q (?f r) w"
    if "stable_env S w \<and> (\<forall>pending. Q (result_of p target pending (fst r)) (snd r) w)" for r w
  proof (cases "\<not> committed (fst r) \<and> snd r = None")
    case True
    with that have "Q no_result None w" by (auto simp: result_of_def)
    with that show ?thesis by (auto simp: final_def True intro!: exI [of _ None])
  next
    case False
    with that show ?thesis
      by (auto simp: final_def intro!: exI [of _ "snd r"] carries_wrap)
  qed
  have eq: "apply_commit pf u p target pending stage =
      attempt ctx_check (\<lambda>_ w. case pf_replace pf stage target w of (r, w') \<Rightarrow> (?f r, w'))"
    using ready by (auto simp: apply_commit_def apply_setup_def fun_eq_iff split_beta)
  have fail: "final S Q (no_result, Some e) w" if "?P w" for e w
    using final_reject [OF ready] that by blast
  show ?thesis
    unfolding eq
    by (rule triple_attempt [OF ctx_check_local], erule fail,
        rule triple_replaced [OF replaced], erule finished)
qed

lemma staged_rule:
  assumes ready: "apply_setup pf lb u p target S A H Q"
    and st: "is_stage target stage" and d: "verified lb u p d" and H: "H (pl_executableHash p) mode"
  shows "triple (\<lambda>w. stable_env S w \<and> A w \<and> node_at w stage = Some (plain_node d (mode mod 512)))
    (apply_staged lb pf u p target pending stage) (final S Q)"
proof -
  have "S stage" "local_to S A"
    using ready is_stage_temp [OF st] by (auto simp: apply_setup_def elim: local_to_mono)
  then have loc: "local_to S (\<lambda>w. A w \<and> node_at w stage = Some (plain_node d (mode mod 512)))"
    by (intro local_to_conj local_node_at)
  show ?thesis
    unfolding apply_staged_def
    by (rule triple_attempt [OF hash_frame [OF loc]])
      (use final_reject [OF ready] commit_rule [OF assms]
       in \<open>auto intro!: triple_if triple_reject split: prod.split\<close>)
qed

text \<open>The stage file is complete and verified; what follows runs with its removal deferred.\<close>

lemma stage_then_rule:
  assumes ready: "apply_setup pf lb u p target S A H Q" and f: "is_archive target (f_path f)"
    and H: "H (pl_executableHash p) mode" and c: "lb_sha256 lb c = pl_archiveDigest p"
    and names: "expectedNames (up_command u) (pl_goos p) (pl_goarch p) = Inr (asset, member)"
  shows "triple (\<lambda>w. stable_env S w \<and> A w \<and> file_at f (plain_node c 384) w)
    (attempt
       (wrapE ''selfupdate: stage executable: %w'' []
         (stageExecutable (lb_archive lb) pf target mode (pl_assetName p) f (int (length c)) member))
       (\<lambda>stage. deferred (apply_staged lb pf u p target pending stage) (remove_stage stage)))
    (final S Q)"
proof -
  have S: "\<And>q. is_temp target q \<Longrightarrow> S q" and A: "local_to (outer S target) A" and blind: "effect_blind A"
    and Q: "\<And>r re. local_to (kept S target) (Q r re)" "\<And>r re. effect_blind (Q r re)"
    using ready by (auto simp: apply_setup_def)
  let ?old = "\<lambda>_ _. True"
  let ?R = "\<lambda>stage w. \<exists>d. (stable_env S w \<and> A w \<and> node_at w stage = Some (plain_node d (mode mod 512)))
      \<and> is_stage target stage \<and> verified lb u p d"
  have trivial: "stages_safe (lb_archive lb) (pl_assetName p) c (int (length c)) member ?old target None w" for w
    by (simp add: stages_safe_def)
  have stage: "hoare (\<lambda>w. stable_env S w \<and> A w \<and> file_at f (plain_node c 384) w)
      (stageExecutable (lb_archive lb) pf target mode (pl_assetName p) f (int (length c)) member)
      ?R (\<lambda>_ w. stable_env S w \<and> A w)"
  proof (rule hoare_weaken [OF stageExecutable_rule [where S = S and A = A and target = target and ar = f
          and an = "plain_node c 384" and old = ?old, OF S A blind is_archive_temp [OF f]]])
    fix stage w
    assume "stable_env S w \<and> A w \<and> file_at f (plain_node c 384) w \<and> is_stage target stage
      \<and> stage \<noteq> f_path f
      \<and> (\<exists>nd. staged (lb_archive lb) (pl_assetName p) (n_content (plain_node c 384)) (int (length c)) member
             (mode mod 512) nd \<and> node_at w stage = Some nd)
      \<and> lookup w stage \<noteq> None
      \<and> stages_safe (lb_archive lb) (pl_assetName p) (n_content (plain_node c 384)) (int (length c)) member
          ?old target None w"
    then show "?R stage w"
      using c names by (fastforce simp: staged_def plain_node_def verified_def)
  qed (use trivial in \<open>auto simp: plain_node_def\<close>)
  show ?thesis
  proof (rule triple_attempt [OF hoare_wrap_any [OF stage]])
    show "final S Q (no_result, Some e) w" if "stable_env S w \<and> A w" for e w
      by (rule final_reject [OF ready that])
    fix stage
    show "triple (?R stage) (deferred (apply_staged lb pf u p target pending stage) (remove_stage stage))
      (final S Q)"
    proof (rule triple_ex, rule triple_fact)
      fix d
      assume d: "is_stage target stage \<and> verified lb u p d"
      show "triple (\<lambda>w. stable_env S w \<and> A w \<and> node_at w stage = Some (plain_node d (mode mod 512)))
        (deferred (apply_staged lb pf u p target pending stage) (remove_stage stage)) (final S Q)"
        by (rule triple_deferred [OF staged_rule [where H = H, OF ready] remove_stage_rule [OF Q]])
          (use d H in auto)
    qed
  qed
qed

lemma archive_rule:
  assumes ready: "apply_setup pf lb u p target S A H Q" and f: "is_archive target (f_path f)"
    and H: "H (pl_executableHash p) mode"
  shows "triple (\<lambda>w. stable_env S w \<and> A w \<and> file_at f (plain_node [] 384) w)
    (apply_archive lb pf u p target mode pending f) (final S Q)"
proof -
  have S: "\<And>q. is_temp target q \<Longrightarrow> S q" and A: "local_to (outer S target) A" and blind: "effect_blind A"
    using ready by (auto simp: apply_setup_def)
  have Sf: "S (f_path f)" by (rule S [OF is_archive_temp [OF f]])
  have exA: "local_to (except S (f_path f)) A"
    by (rule local_to_mono [OF A]) (use is_archive_temp [OF f] in auto)
  have locA: "local_to S A" by (rule local_except [OF exA])
  have nd: "(plain_node [] 384)\<lparr>n_content := c\<rparr> = plain_node c 384" for c
    by (simp add: plain_node_def)
  let ?P = "\<lambda>c w. stable_env S w \<and> A w \<and> file_at f (plain_node c 384) w"
  have P: "downloading S A f (plain_node [] 384) c = ?P c" for c
    by (simp add: downloading_def fun_eq_iff nd)
  have loc: "local_to S (\<lambda>w. A w \<and> file_at f (plain_node c 384) w)" for c
    by (rule local_to_conj [OF locA]) (rule local_file_at, rule Sf)
  have no: "final S Q (no_result, Some e) w" if "?P c w" for c e w
    using final_reject [OF ready] that by blast
  have get: "hoare (?P [])
      (downloadToFile lb u (pl_assetURL p) maxArchiveBytes ''release asset'' (pl_assetSize p) (os_write f))
      (\<lambda>d w. \<exists>c. ?P c w \<and> d = lb_sha256 lb c) (\<lambda>_ w. \<exists>c. ?P c w)"
    by (rule hoare_weaken [OF download_rule [where nd = "plain_node [] 384", OF Sf exA blind]])
      (auto simp: P maxArchiveBytes_def)
  have info: "hoare (?P c) (os_stat f) (\<lambda>r w. ?P c w \<and> r = plain_node c 384) (\<lambda>_. ?P c)" for c
    by (rule hoare_weaken [OF os_stat_rule [OF Sf locA, where nd = "plain_node c 384"]]) auto
  have names: "hoare (?P c) (liftE (expectedNames (up_command u) (pl_goos p) (pl_goarch p)))
      (\<lambda>r w. ?P c w \<and> expectedNames (up_command u) (pl_goos p) (pl_goarch p) = Inr r) (\<lambda>_. ?P c)" for c
    by (rule hoare_lift) auto
  have size: "int (length (n_content (plain_node c 384))) = int (length c)" for c
    by (simp add: plain_node_def)
  have staged: "triple (\<lambda>w. ?P c w \<and> r = plain_node c 384)
      (attempt (wrapE ''selfupdate: seek downloaded archive: %w'' [] (os_seek_start f))
         (\<lambda>_. attempt (liftE (expectedNames (up_command u) (pl_goos p) (pl_goarch p)))
            (\<lambda>(_, memberName). attempt
               (wrapE ''selfupdate: stage executable: %w'' []
                 (stageExecutable (lb_archive lb) pf target mode (pl_assetName p) f
                   (int (length (n_content r))) memberName))
               (\<lambda>stage. deferred (apply_staged lb pf u p target pending stage) (remove_stage stage)))))
      (final S Q)" if c: "lb_sha256 lb c = pl_archiveDigest p" for c r
    by (rule triple_fact, simp only: size, rule triple_attempt [OF hoare_wrap_any [OF pure_calls(7) [OF loc]]],
        erule no, rule triple_attempt [OF names], erule no, simp only: split_beta, rule triple_fact,
        rule stage_then_rule [where H = H, OF ready f H c]) (simp, rule prod.collapse [symmetric])
  show ?thesis
    unfolding apply_archive_def
    by (rule triple_attempt [OF get], erule exE, erule no, rule triple_ex, rule triple_fact, rule triple_if,
        rule triple_reject, erule no, simp only: not_not,
        rule triple_attempt [OF hoare_wrap_any [OF pure_calls(5) [OF loc]]], erule no,
        rule triple_attempt [OF hoare_wrap_any [OF info]], erule no, rule staged, simp)
qed

lemma archive_then_rule:
  assumes ready: "apply_setup pf lb u p target S A H Q"
  shows "triple (\<lambda>w. (stable_env S w \<and> A w) \<and> H h mode)
    (if h \<noteq> pl_executableHash p
     then reject (ErrorString ''selfupdate: executable changed since Check'')
     else attempt (wrapE ''selfupdate: create archive file: %w'' [] (createArchiveFile target))
       (\<lambda>f. deferred (apply_archive lb pf u p target mode pending f) (close_archive f)))
    (final S Q)"
proof (rule triple_fact, rule triple_if)
  have S: "\<And>q. is_temp target q \<Longrightarrow> S q" and A: "local_to (outer S target) A"
    and Q: "\<And>r re. local_to (kept S target) (Q r re)" "\<And>r re. effect_blind (Q r re)"
    using ready by (auto simp: apply_setup_def)
  have locA: "local_to S A" by (rule local_to_mono [OF A]) blast
  have no: "final S Q (no_result, Some e) w" if "stable_env S w \<and> A w" for e w
    by (rule final_reject [OF ready that])
  show "triple (\<lambda>w. stable_env S w \<and> A w)
      (reject (ErrorString ''selfupdate: executable changed since Check'')) (final S Q)"
    by (rule triple_reject) (rule no)
  assume "H h mode" "\<not> h \<noteq> pl_executableHash p"
  then have H: "H (pl_executableHash p) mode" by simp
  have create: "hoare (\<lambda>w. stable_env S w \<and> A w) (createArchiveFile target)
      (\<lambda>f w. (stable_env S w \<and> A w \<and> file_at f (plain_node [] 384) w) \<and> is_archive target (f_path f))
      (\<lambda>_ w. stable_env S w \<and> A w)"
    unfolding createArchiveFile_def
  proof (rule hoare_weaken [OF create_random_rule [where B = "\<lambda>_. A", OF S locA]])
    show "A w'" if "is_temp target q" "A w" "same_on (except S q) w w'" for q w w'
      by (rule local_toD [OF local_to_mono [OF A] that(3,2)]) (use that(1) in auto)
  qed (auto simp: is_archive_def is_temp_def)
  show "triple (\<lambda>w. stable_env S w \<and> A w)
      (attempt (wrapE ''selfupdate: create archive file: %w'' [] (createArchiveFile target))
         (\<lambda>f. deferred (apply_archive lb pf u p target mode pending f) (close_archive f))) (final S Q)"
  proof (rule triple_attempt [OF hoare_wrap_any [OF create]], erule no, rule triple_fact)
    fix f
    assume f: "is_archive target (f_path f)"
    show "triple (\<lambda>w. stable_env S w \<and> A w \<and> file_at f (plain_node [] 384) w)
        (deferred (apply_archive lb pf u p target mode pending f) (close_archive f)) (final S Q)"
      by (rule triple_deferred [OF archive_rule [where H = H, OF ready f H] close_archive_rule [OF Q f]])
  qed
qed

lemma locked_rule:
  assumes ready: "apply_setup pf lb u p target S A H Q"
  shows "triple (\<lambda>w. stable_env S w \<and> A w) (apply_locked lb pf u p target) (final S Q)"
proof -
  have S: "\<And>q. is_temp target q \<Longrightarrow> S q" and A: "local_to (outer S target) A" and blind: "effect_blind A"
    and hash: "hash_law lb target S A H"
    using ready by (auto simp: apply_setup_def)
  have locA: "local_to S A" by (rule local_to_mono [OF A]) blast
  let ?P = "\<lambda>w. stable_env S w \<and> A w"
  have no: "final S Q (no_result, Some e) w" if "?P w" for e w
    by (rule final_reject [OF ready that])
  have sweep: "preserves ?P (cleanupStaleStages target)" "preserves ?P (cleanupStaleArchives target)"
    unfolding cleanupStaleStages_def cleanupStaleArchives_def
    by (rule cleanup_frame [OF S A blind]; assumption)+
  have swept: "triple ?P
      (attempt (wrapE ''selfupdate: clean stale staged executables: %w'' [] (cleanupStaleStages target))
        (\<lambda>_. attempt (wrapE ''selfupdate: clean stale downloaded archives: %w'' [] (cleanupStaleArchives target))
          (\<lambda>_. attempt (hashExecutable lb target)
            (\<lambda>(currentHash, mode).
               if currentHash \<noteq> pl_executableHash p
               then reject (ErrorString ''selfupdate: executable changed since Check'')
               else attempt (wrapE ''selfupdate: create archive file: %w'' [] (createArchiveFile target))
                 (\<lambda>f. deferred (apply_archive lb pf u p target mode pending f) (close_archive f))))))
      (final S Q)" for pending
    by (rule triple_attempt [OF hoare_wrap_any [OF sweep(1)]], erule no,
        rule triple_attempt [OF hoare_wrap_any [OF sweep(2)]], erule no,
        rule triple_attempt [OF hash [unfolded hash_law_def]], erule no, simp only: split_beta,
        rule archive_then_rule [OF ready])
  show ?thesis
    unfolding apply_locked_def
    by (rule triple_attempt [OF resolve_frame [OF locA]], erule no, rule triple_if, rule triple_reject,
        erule no, rule triple_attempt [OF ctx_check_local], erule no,
        rule triple_pending [OF backups_frame [OF S A blind]], assumption, rule triple_reject, erule no,
        rule swept)
qed

text \<open>The rule of Apply, for a plan that names this target.\<close>

lemma Apply_rule:
  assumes guards: "apply_guards lb receiver ctx pl = Inr (u, p)"
    and ready: "apply_setup pf lb u p (pl_executable p) S A H Q"
    and w: "stable_env S w \<and> A w" and run: "Apply lb pf receiver ctx pl w = Some (out, w')"
  shows "final S Q out w'"
proof -
  let ?target = "pl_executable p"
  have A: "local_to (outer S ?target) A" and Q: "\<And>r re. local_to (kept S ?target) (Q r re)"
    using ready by (auto simp: apply_setup_def)
  have locA: "local_to S A" by (rule local_to_mono [OF A]) blast
  have no: "final S Q (no_result, Some e) w" if "stable_env S w \<and> A w" for e w
    by (rule final_reject [OF ready that])
  obtain r w1 where r: "resolveExecutable w = (r, w1)" by (cases "resolveExecutable w")
  have w1: "stable_env S w1 \<and> A w1"
    using hoareD_ok [OF resolve_frame [OF locA] w] hoareD_err [OF resolve_frame [OF locA] w] r
    by (cases r) auto
  show ?thesis
  proof (cases "r = Inr ?target")
    case False
    with run guards r no [OF w1] show ?thesis
      by (cases r) (auto simp: Apply_def reject_def give_def)
  next
    case True
    obtain l w2 where l: "pf_acquireFileLock pf (lock_path ?target) w1 = Some (l, w2)"
      using run guards r True by (auto simp: Apply_def split: option.splits)
    have ex: "local_to (except S (lock_path ?target)) A"
      by (rule local_to_mono [OF A]) (use ready in \<open>auto simp: apply_setup_def\<close>)
    have w2: "stable_env S w2 \<and> A w2" by (rule acquire_frame [OF ex w1 l])
    show ?thesis
    proof (cases l)
      case (Inl e)
      with run guards r True l no [OF w2] show ?thesis
        by (auto simp: Apply_def reject_def give_def)
    next
      case (Inr lk)
      have rel: "triple (final S Q (a, e)) (release_lock pf lk a e) (\<lambda>e'. final S Q (a, e'))" for a e
        unfolding release_lock_def
      proof (rule triple_final)
        fix re
        assume c: "carries re e"
        have "local_to S (Q a re)" by (rule local_to_mono [OF Q]) blast
        from joining_rule [where Q = Q, OF release_frame [OF this] c]
        show "triple (\<lambda>w. stable_env S w \<and> Q a re w)
          (joining ''selfupdate: release executable lock: %w'' (pf_release pf (Some lk)) e)
          (\<lambda>e' w. stable_env S w \<and> Q a re w \<and> carries re e')" .
      qed
      have "deferred (apply_locked lb pf u p ?target) (release_lock pf lk) w2 = (out, w')"
        using run guards r True l Inr by (simp add: Apply_def)
      from tripleD [OF triple_deferred [OF locked_rule [OF ready] rel] w2 this] show ?thesis .
    qed
  qed
qed

end

end
