(* ===== verification/Replace_Unix.thy ===== *)
theory Replace_Unix
  imports Replacement
begin

text \<open>
  replace_unix.go: one \<^verbatim>\<open>rename\<close> replaces the executable, then the directory is synced. A sync
  that fails leaves a committed result with an error.
\<close>

definition syncDirectory_unix :: "string \<Rightarrow> unit io" where
  "syncDirectory_unix d = bindE (os_open_dir d) (\<lambda>f. finallyE (os_sync f) (os_close f))"

definition replaceExecutable_unix ::
  "path \<Rightarrow> path \<Rightarrow> (replacementResult \<times> gerror option) prog" where
  "replaceExecutable_unix stage target =
     tryE (os_rename stage target)
       (\<lambda>e. give (\<lparr>committed = False, cleanupPending = False\<rparr>, Some e))
       (\<lambda>_. tryE (syncDirectory_unix (dir_of target))
          (\<lambda>e. give (\<lparr>committed = True, cleanupPending = False\<rparr>, Some e))
          (\<lambda>_. give (\<lparr>committed = True, cleanupPending = False\<rparr>, None)))"

definition cleanupStaleBackups_unix :: "path \<Rightarrow> (bool \<times> gerror option) prog" where
  "cleanupStaleBackups_unix target = give (False, None)"

lemma sync_unix_local:
  "local_to S A \<Longrightarrow> preserves (\<lambda>w. stable_env S w \<and> A w) (syncDirectory_unix d)"
  unfolding syncDirectory_unix_def
  by (rule hoare_bind [OF pure_calls(9)], assumption, rule hoare_finally [OF pure_calls(5)])
    (auto intro: pure_calls)

text \<open>
  The contract on Unix: a commit is the one rename of the stage file onto the executable, and
  without a commit nothing is renamed and the executable is the very same file.
\<close>

definition atomic_move :: "path \<Rightarrow> path \<Rightarrow> bytes \<Rightarrow> bool \<Rightarrow> effect list \<Rightarrow> bool" where
  "atomic_move target stage d c rs \<longleftrightarrow> rs = (if c then [ERename stage target d] else [])"

definition untouched :: "path \<Rightarrow> node \<Rightarrow> gerror option \<Rightarrow> world \<Rightarrow> bool" where
  "untouched target nt err w \<longleftrightarrow> node_at w target = Some nt"

text \<open>
  Every fact about the replacement follows from one rule: a failed rename changes nothing, and
  after the rename only the sync is left.
\<close>

lemma replace_unix_rule:
  assumes A: "local_to S A" and B: "local_to S B"
    and rename: "\<And>w i. stable_env S w \<Longrightarrow> A w \<Longrightarrow> lookup w stage = Some i \<Longrightarrow>
      stable_env S (emit (ERename stage target (content_at w stage)) (move_name stage target w)) \<and>
      B (emit (ERename stage target (content_at w stage)) (move_name stage target w))"
  shows "triple (\<lambda>w. stable_env S w \<and> A w) (replaceExecutable_unix stage target)
    (\<lambda>r w. stable_env S w \<and> (if committed (fst r) then B w else snd r \<noteq> None \<and> A w))"
  unfolding replaceExecutable_unix_def
proof (rule triple_try)
  show "hoare (\<lambda>w. stable_env S w \<and> A w) (os_rename stage target) (\<lambda>_ w. stable_env S w \<and> B w)
    (\<lambda>_ w. stable_env S w \<and> A w)"
    by (rule os_rename_rule [OF A]) (use rename in auto)
next
  show "triple (\<lambda>w. stable_env S w \<and> B w)
    (tryE (syncDirectory_unix (dir_of target))
       (\<lambda>e. give (\<lparr>committed = True, cleanupPending = False\<rparr>, Some e))
       (\<lambda>_. give (\<lparr>committed = True, cleanupPending = False\<rparr>, None)))
    (\<lambda>r w. stable_env S w \<and> (if committed (fst r) then B w else snd r \<noteq> None \<and> A w))"
    by (rule triple_try [OF sync_unix_local [OF B]]; rule triple_give; simp)
qed (rule triple_give, simp)

lemma sync_unix_staging:
  "pf_syncDirectory pf = syncDirectory_unix \<Longrightarrow> staging_platform pf"
  by unfold_locales (simp add: sync_unix_local)

lemma replace_unix_renames:
  assumes S: "\<And>p. is_temp target p \<Longrightarrow> S p" and st: "is_stage target stage"
  shows "triple (\<lambda>w. stable_env S w \<and> node_at w stage = Some ns \<and> renames w = rs0)
    (replaceExecutable_unix stage target)
    (\<lambda>r w. stable_env S w \<and> (committed (fst r) \<or> snd r \<noteq> None)
       \<and> (\<exists>rs. renames w = rs @ rs0 \<and> atomic_move target stage (n_content ns) (committed (fst r)) rs))"
proof -
  have "S stage" using S is_stage_temp [OF st] by blast
  then have A: "local_to S (\<lambda>w. node_at w stage = Some ns \<and> renames w = rs0)"
    by (intro local_to_conj local_node_at local_renames)
  let ?B = "\<lambda>w. renames w = [ERename stage target (n_content ns)] @ rs0"
  have B: "local_to S ?B" by (rule local_renames [where P = "\<lambda>rs. rs = _ @ rs0"])
  have rules: "renames (move_name stage target w) = renames w" for w
    by (simp add: renames_def)
  show ?thesis
    by (rule triple_weaken [OF replace_unix_rule [OF A B]])
      (auto simp: rules stable_updates content_at_def atomic_move_def split: if_splits)
qed

lemma replace_unix_safe:
  assumes S: "S target" "\<And>p. is_temp target p \<Longrightarrow> S p" and st: "is_stage target stage"
  shows "triple (\<lambda>w. stable_env S w \<and> node_at w stage = Some ns \<and> node_at w target = Some nt)
    (replaceExecutable_unix stage target)
    (\<lambda>r w. stable_env S w
       \<and> (if committed (fst r) then node_at w target = Some ns
          else untouched target nt (snd r) w))"
proof -
  have "S stage" using S is_stage_temp [OF st] by blast
  then have A: "local_to S (\<lambda>w. node_at w stage = Some ns \<and> node_at w target = Some nt)"
    using S(1) by (intro local_to_conj local_node_at)
  show ?thesis
    by (rule triple_weaken [OF replace_unix_rule [OF A, where B = "\<lambda>w. node_at w target = Some ns"]])
      (use stage_not_target [OF st] in \<open>auto simp: local_node_at S(1) node_at_move_name stable_updates
         untouched_def split: if_splits\<close>)
qed

end
