(* ===== verification/Replace_Windows.thy ===== *)
theory Replace_Windows
  imports Replacement
begin

text \<open>
  replace_windows.go: a running executable cannot be replaced but it can be renamed, so the
  target is moved to a random hidden backup name first, then the stage file takes its name, and
  the backup is removed, now or by a later sweep. A failure in between moves the backup back; if
  that fails too the error names the backup. File attributes are a 32-bit word.
\<close>

unbundle bit_operations_syntax

definition FILE_ATTRIBUTE_READONLY :: "32 word" where "FILE_ATTRIBUTE_READONLY = 1"
definition FILE_ATTRIBUTE_HIDDEN :: "32 word" where "FILE_ATTRIBUTE_HIDDEN = 2"

definition utf16PtrFromString :: "path \<Rightarrow> unit io" where
  "utf16PtrFromString p = guardE (CHR 0x00 \<notin> set (path_string p)) (SysError ''EINVAL'')"

definition getFileAttributes :: "path \<Rightarrow> 32 word io" where
  "getFileAttributes p = syscall (\<lambda>w.
     case node_at w p of None \<Rightarrow> (Inl ErrNotExist, w) | Some nd \<Rightarrow> (Inr (n_attrs nd), w))"

definition setFileAttributes :: "path \<Rightarrow> 32 word \<Rightarrow> unit io" where
  "setFileAttributes p a = syscall (\<lambda>w.
     case lookup w p of None \<Rightarrow> (Inl ErrNotExist, w)
     | Some i \<Rightarrow> (Inr (), set_node i (n_attrs_update (\<lambda>_. a)) w))"

definition updateHidden :: "path \<Rightarrow> bool \<Rightarrow> unit io" where
  "updateHidden p hidden =
     thenE (utf16PtrFromString p)
       (bindE (getFileAttributes p)
         (\<lambda>a. setFileAttributes p
            (if hidden then a OR FILE_ATTRIBUTE_HIDDEN else a AND NOT FILE_ATTRIBUTE_HIDDEN)))"

definition hideFile :: "path \<Rightarrow> unit io" where
  "hideFile p = updateHidden p True"

definition clearHidden :: "path \<Rightarrow> unit io" where
  "clearHidden p = updateHidden p False"

definition removeBackup :: "path \<Rightarrow> unit io" where
  "removeBackup p =
     thenE (utf16PtrFromString p)
       (bindE (getFileAttributes p)
         (\<lambda>a. thenE
            (if a AND FILE_ATTRIBUTE_READONLY \<noteq> 0
             then setFileAttributes p (a AND NOT FILE_ATTRIBUTE_READONLY) else ret ())
            (os_remove p)))"

definition rollbackWindowsWith ::
  "path \<Rightarrow> path \<Rightarrow> gerror \<Rightarrow> (path \<Rightarrow> path \<Rightarrow> unit io) \<Rightarrow> (path \<Rightarrow> unit io) \<Rightarrow> gerror prog" where
  "rollbackWindowsWith target backup updateErr rename clear =
     tryE (rename backup target)
       (\<lambda>e. give (RollbackErr target backup updateErr (Wrapf ''restore backup: %w'' [] e)))
       (\<lambda>_. tryE (clear target)
          (\<lambda>e. give (RollbackErr target backup updateErr
             (Wrapf ''clear restored target hidden attribute: %w'' [] e)))
          (\<lambda>_. give updateErr))"

definition rollbackWindows :: "path \<Rightarrow> path \<Rightarrow> gerror \<Rightarrow> gerror prog" where
  "rollbackWindows target backup updateErr =
     rollbackWindowsWith target backup updateErr os_rename clearHidden"

fun random_backup_loop :: "path \<Rightarrow> nat \<Rightarrow> path io" where
  "random_backup_loop target 0 = fail (ErrorString ''could not create a unique backup name'')"
| "random_backup_loop target (Suc attempts) =
     bindE (wrapE ''create random backup name: %w'' [] (rand_read 16))
       (\<lambda>random.
          let candidate = temp_path target ''backup'' random
          in tryE (os_lstat candidate)
               (\<lambda>e. if errors_is e ErrNotExist then ret candidate
                     else fail (Wrapf ''check backup name: %w'' [] e))
               (\<lambda>_. random_backup_loop target attempts))"

definition randomBackupPath :: "path \<Rightarrow> path io" where
  "randomBackupPath target = random_backup_loop target 10"

definition not_committed :: "gerror \<Rightarrow> replacementResult \<times> gerror option" where
  "not_committed e = (\<lparr>committed = False, cleanupPending = False\<rparr>, Some e)"

text \<open>\<^verbatim>\<open>return replacementResult{}, rollbackWindows(target, backup, err)\<close>\<close>

definition rolled_back ::
  "path \<Rightarrow> path \<Rightarrow> gerror \<Rightarrow> (replacementResult \<times> gerror option) prog" where
  "rolled_back target backup e w =
     (case rollbackWindows target backup e w of (e', w') \<Rightarrow> (not_committed e', w'))"

definition remove_installed_backup :: "path \<Rightarrow> (replacementResult \<times> gerror option) prog" where
  "remove_installed_backup backup =
     tryE (removeBackup backup)
       (\<lambda>e. if isPendingCleanupError e
             then give (\<lparr>committed = True, cleanupPending = True\<rparr>, None)
             else give (\<lparr>committed = True, cleanupPending = False\<rparr>,
               Some (Wrapf ''remove installed executable backup %s: %w''
                 [AStr (path_string backup)] e)))
       (\<lambda>_. give (\<lparr>committed = True, cleanupPending = False\<rparr>, None))"

definition replaceExecutable_windows ::
  "path \<Rightarrow> path \<Rightarrow> (replacementResult \<times> gerror option) prog" where
  "replaceExecutable_windows stage target =
     tryE (randomBackupPath target) (\<lambda>e. give (not_committed e))
       (\<lambda>backup.
          tryE (os_rename target backup)
            (\<lambda>e. give (not_committed (Wrapf ''move current executable aside: %w'' [] e)))
            (\<lambda>_. tryE (hideFile backup)
               (\<lambda>e. rolled_back target backup (Wrapf ''hide backup: %w'' [] e))
               (\<lambda>_. tryE (os_rename stage target)
                  (\<lambda>e. rolled_back target backup (Wrapf ''install staged executable: %w'' [] e))
                  (\<lambda>_. remove_installed_backup backup))))"

fun backup_entries ::
  "path \<Rightarrow> (string \<times> node_kind) list \<Rightarrow> bool \<Rightarrow> (bool \<times> gerror option) prog" where
  "backup_entries target [] pending = give (pending, None)"
| "backup_entries target ((name, kind) # entries) pending =
     (if \<not> stale_name target ''backup'' name then backup_entries target entries pending
      else if kind = Symlink \<or> kind = Directory then backup_entries target entries pending
      else tryE (removeBackup (Path (dir_of target) name))
        (\<lambda>e. if isPendingCleanupError e then backup_entries target entries True
              else give (pending, Some e))
        (\<lambda>_. backup_entries target entries pending))"

definition cleanupStaleBackups_windows :: "path \<Rightarrow> (bool \<times> gerror option) prog" where
  "cleanupStaleBackups_windows target =
     tryE (os_read_dir (dir_of target)) (\<lambda>e. give (False, Some e))
       (\<lambda>entries. backup_entries target entries False)"

definition syncDirectory_windows :: "string \<Rightarrow> unit io" where
  "syncDirectory_windows d = ret ()"

section \<open>Rules\<close>

lemma sync_windows_local:
  "local_to S A \<Longrightarrow> preserves (\<lambda>w. stable_env S w \<and> A w) (syncDirectory_windows d)"
  by (simp add: syncDirectory_windows_def hoare_ret)

lemma sync_windows_staging:
  "pf_syncDirectory pf = syncDirectory_windows \<Longrightarrow> staging_platform pf"
  by unfold_locales (simp add: sync_windows_local)

text \<open>
  Attributes: a call on the name \<open>p\<close> keeps what is known of other names, and, as attributes do
  not matter to \<^const>\<open>holds\<close>, what is held at any name.
\<close>

definition attr_blind :: "path \<Rightarrow> (world \<Rightarrow> bool) \<Rightarrow> bool" where
  "attr_blind p A \<longleftrightarrow>
     (\<forall>w i a. wf_world w \<longrightarrow> lookup w p = Some i \<longrightarrow> A w \<longrightarrow>
        A (set_node i (n_attrs_update (\<lambda>_. a)) w))"

lemma attr_blind_local: "local_to (except S p) A \<Longrightarrow> attr_blind p A"
  unfolding attr_blind_def using same_set_node local_toD by blast

lemma attr_blind_holds: "attr_blind p (holds q nt)"
  by (auto simp: attr_blind_def holds_def node_at_set_node same_file_def split: option.splits)

lemma attr_blind_conj: "attr_blind p A \<Longrightarrow> attr_blind p B \<Longrightarrow> attr_blind p (\<lambda>w. A w \<and> B w)"
  by (simp add: attr_blind_def)

lemma utf16_rule: "preserves A (utf16PtrFromString p)"
  unfolding utf16PtrFromString_def by (rule hoare_guard)

lemma getFileAttributes_rule:
  "local_to S A \<Longrightarrow> preserves (\<lambda>w. stable_env S w \<and> A w) (getFileAttributes p)"
  unfolding getFileAttributes_def by (rule hoare_pure_call) (auto split: option.split)

lemma setFileAttributes_rule:
  assumes "local_to S A" "attr_blind p A"
  shows "preserves (\<lambda>w. stable_env S w \<and> A w) (setFileAttributes p a)"
  unfolding setFileAttributes_def
  by (rule hoare_syscall_local [OF assms(1)])
    (use assms(2) in \<open>auto simp: hoare_def attr_blind_def stable_env_def env_avoids_def wf_rules
       split: option.split\<close>)

lemma updateHidden_rule:
  assumes "local_to S A" "attr_blind p A"
  shows "preserves (\<lambda>w. stable_env S w \<and> A w) (updateHidden p h)"
  unfolding updateHidden_def
  by (rule hoare_then [OF utf16_rule], rule hoare_bind [OF getFileAttributes_rule [OF assms(1)]],
      rule setFileAttributes_rule [OF assms])

lemma hide_rules:
  assumes "local_to S A" "attr_blind p A"
  shows "preserves (\<lambda>w. stable_env S w \<and> A w) (hideFile p)"
    and "preserves (\<lambda>w. stable_env S w \<and> A w) (clearHidden p)"
  unfolding hideFile_def clearHidden_def by (rule updateHidden_rule [OF assms])+

text \<open>Removing a backup keeps what is known of other names.\<close>

lemma removeBackup_rule:
  assumes A: "local_to (except S p) A" and blind: "effect_blind A"
  shows "preserves (\<lambda>w. stable_env S w \<and> A w) (removeBackup p)"
proof -
  have loc: "local_to S A" by (rule local_except [OF A])
  have attr: "attr_blind p A" by (rule attr_blind_local [OF A])
  have "A (emit (ERemove p) (del_name p w))" if "A w" for w
    by (rule effect_blindD [OF blind not_rename(1)]) (use that local_toD [OF A same_del_name] in blast)
  then have rm: "preserves (\<lambda>w. stable_env S w \<and> A w) (os_remove p)"
    by (intro os_remove_rule [OF loc]) (auto simp: stable_updates)
  show ?thesis
    unfolding removeBackup_def
    by (rule hoare_then [OF utf16_rule], rule hoare_bind [OF getFileAttributes_rule [OF loc]],
        rule hoare_then [OF _ rm], rule hoare_if [OF setFileAttributes_rule [OF loc attr] hoare_ret],
        assumption)
qed

lemma randomBackupPath_rule:
  assumes "local_to S A"
  shows "hoare (\<lambda>w. stable_env S w \<and> A w) (randomBackupPath target)
    (\<lambda>b w. stable_env S w \<and> A w \<and> is_backup target b) (\<lambda>_ w. stable_env S w \<and> A w)"
proof -
  have "hoare (\<lambda>w. stable_env S w \<and> A w) (random_backup_loop target n)
    (\<lambda>b w. stable_env S w \<and> A w \<and> is_backup target b) (\<lambda>_ w. stable_env S w \<and> A w)" for n
  proof (induction n)
    case 0
    show ?case by (auto intro: hoare_fail)
  next
    case (Suc n)
    show ?case
      unfolding random_backup_loop.simps Let_def
    proof (rule hoare_bind [OF hoare_wrap_any [OF rand_read_rule [OF assms]]])
      fix r :: bytes
      show "hoare (\<lambda>w. stable_env S w \<and> A w \<and> length r = 16)
        (tryE (os_lstat (temp_path target ''backup'' r))
          (\<lambda>e. if errors_is e ErrNotExist then ret (temp_path target ''backup'' r)
                else fail (Wrapf ''check backup name: %w'' [] e))
          (\<lambda>_. random_backup_loop target n))
        (\<lambda>b w. stable_env S w \<and> A w \<and> is_backup target b) (\<lambda>_ w. stable_env S w \<and> A w)"
      proof (cases "length r = 16")
        case True
        then have "is_backup target (temp_path target ''backup'' r)"
          using temp_path_stale [OF True, of target "''backup''"]
          by (simp add: is_backup_def temp_path_def)
        then show ?thesis
          by (intro hoare_pre [OF hoare_try [OF pure_calls(3) [OF assms]]] hoare_if hoare_ret hoare_fail Suc)
            auto
      qed (simp add: hoare_def)
    qed
  qed
  then show ?thesis by (simp add: randomBackupPath_def)
qed

lemma cleanup_windows_frame:
  assumes S: "\<And>p. is_temp target p \<Longrightarrow> S p" and A: "local_to (outer S target) A"
    and blind: "effect_blind A"
  shows "triple (\<lambda>w. stable_env S w \<and> A w) (cleanupStaleBackups_windows target)
    (\<lambda>_ w. stable_env S w \<and> A w)"
proof -
  have loc: "local_to S A" by (rule local_to_mono [OF A]) blast
  have "triple (\<lambda>w. stable_env S w \<and> A w) (backup_entries target es b) (\<lambda>_ w. stable_env S w \<and> A w)"
    for es b
  proof (induction es arbitrary: b)
    case Nil
    show ?case by (auto intro: triple_give)
  next
    case (Cons e es)
    obtain name kind where e: "e = (name, kind)" by (cases e)
    have rm: "preserves (\<lambda>w. stable_env S w \<and> A w) (removeBackup (Path (dir_of target) name))"
      if "stale_name target ''backup'' name"
      by (rule removeBackup_rule [OF local_to_mono [OF A] blind])
        (use stale_name_temp [OF that] in auto)
    show ?case
      unfolding e backup_entries.simps
      by (intro triple_if Cons triple_try [OF rm]) (auto intro: triple_give)
  qed
  then show ?thesis
    unfolding cleanupStaleBackups_windows_def
    by (intro triple_try [OF pure_calls(8) [OF loc]]) (auto intro: triple_give)
qed

section \<open>The replacement\<close>

text \<open>What a successful rename leads to.\<close>

definition after_rename :: "path \<Rightarrow> path \<Rightarrow> (world \<Rightarrow> bool) \<Rightarrow> world \<Rightarrow> bool" where
  "after_rename a b A w \<longleftrightarrow> A (emit (ERename a b (content_at w a)) (move_name a b w))"

lemma rename_rule:
  assumes "local_to S A"
    and "\<And>w i. stable_env S w \<Longrightarrow> A w \<Longrightarrow> lookup w a = Some i \<Longrightarrow> after_rename a b B w"
  shows "hoare (\<lambda>w. stable_env S w \<and> A w) (os_rename a b)
    (\<lambda>_ w. stable_env S w \<and> B w) (\<lambda>_ w. stable_env S w \<and> A w)"
  by (rule os_rename_rule [OF assms(1)])
    (use assms(2) in \<open>auto simp: after_rename_def stable_updates\<close>)

text \<open>Moving the backup back: the error names the backup when what it holds is still there only.\<close>

lemma rollback_rule:
  assumes B: "local_to S B" and C: "local_to S C" "attr_blind target C"
    and restore: "\<And>w i. stable_env S w \<Longrightarrow> B w \<Longrightarrow> lookup w b = Some i \<Longrightarrow> after_rename b target C w"
  shows "triple (\<lambda>w. stable_env S w \<and> B w) (rolled_back target b e)
    (\<lambda>r w. stable_env S w \<and> \<not> committed (fst r) \<and> snd r \<noteq> None
       \<and> (C w \<or> (\<exists>u v. snd r = Some (RollbackErr target b u v)) \<and> B w))"
proof -
  have "triple (\<lambda>w. stable_env S w \<and> B w) (rollbackWindows target b e)
    (\<lambda>err w. stable_env S w \<and> (C w \<or> (\<exists>u v. err = RollbackErr target b u v) \<and> B w))"
    unfolding rollbackWindows_def rollbackWindowsWith_def
    by (rule triple_try [OF rename_rule [OF B restore]], assumption+,
        rule triple_give, blast,
        rule triple_try [OF hide_rules(2) [OF C]]; rule triple_give; blast)
  then show ?thesis
    by (fastforce simp: triple_def rolled_back_def not_committed_def split: prod.splits)
qed

text \<open>
  The rule of the whole replacement: \<open>A\<close> before it, \<open>B b\<close> while the original is at the backup name
  \<open>b\<close>, \<open>C\<close> after a successful move back, \<open>D b\<close> once the stage file has taken the target's name.
\<close>

lemma replace_windows_rule:
  assumes A: "local_to S A"
    and aside: "\<And>b w i. is_backup target b \<Longrightarrow> stable_env S w \<Longrightarrow> A w \<Longrightarrow> lookup w target = Some i \<Longrightarrow>
      after_rename target b (B b) w"
    and B: "\<And>b. is_backup target b \<Longrightarrow> local_to S (B b)" "\<And>b. is_backup target b \<Longrightarrow> attr_blind b (B b)"
    and restore: "\<And>b w i. is_backup target b \<Longrightarrow> stable_env S w \<Longrightarrow> B b w \<Longrightarrow> lookup w b = Some i \<Longrightarrow>
      after_rename b target C w"
    and C: "local_to S C" "attr_blind target C"
    and install: "\<And>b w i. is_backup target b \<Longrightarrow> stable_env S w \<Longrightarrow> B b w \<Longrightarrow> lookup w stage = Some i \<Longrightarrow>
      after_rename stage target D w"
    and D: "\<And>b. is_backup target b \<Longrightarrow> local_to (except S b) D" "effect_blind D"
  shows "triple (\<lambda>w. stable_env S w \<and> A w) (replaceExecutable_windows stage target)
    (\<lambda>r w. stable_env S w \<and> (if committed (fst r) then D w
       else snd r \<noteq> None \<and> (A w \<or> C w \<or> (\<exists>b u v. is_backup target b
              \<and> snd r = Some (RollbackErr target b u v) \<and> B b w))))"
    (is "triple _ _ ?Q")
proof -
  have rolled: "triple (\<lambda>w. stable_env S w \<and> B b w) (rolled_back target b e) ?Q"
    if b: "is_backup target b" for b e
    by (rule triple_weaken [OF rollback_rule [OF B(1) [OF b] C restore [OF b]]]) (use b in auto)
  have removed: "triple (\<lambda>w. stable_env S w \<and> D w) (remove_installed_backup b) ?Q"
    if b: "is_backup target b" for b
    unfolding remove_installed_backup_def
    by (rule triple_try [OF removeBackup_rule [OF D(1) [OF b] D(2)]])
      (auto intro!: triple_if triple_give)
  have moved: "triple (\<lambda>w. stable_env S w \<and> B b w)
      (tryE (hideFile b) (\<lambda>e. rolled_back target b (Wrapf ''hide backup: %w'' [] e))
         (\<lambda>_. tryE (os_rename stage target)
            (\<lambda>e. rolled_back target b (Wrapf ''install staged executable: %w'' [] e))
            (\<lambda>_. remove_installed_backup b))) ?Q"
    if b: "is_backup target b" for b
    by (rule triple_try [OF hide_rules(1) [OF B(1) [OF b] B(2) [OF b]]], rule rolled [OF b],
        rule triple_try [OF rename_rule [OF B(1) [OF b] install [OF b]]], assumption+,
        rule rolled [OF b], rule removed [OF b])
  show ?thesis
    unfolding replaceExecutable_windows_def
  proof (rule triple_try [OF randomBackupPath_rule [OF A]])
    fix b
    show "triple (\<lambda>w. stable_env S w \<and> A w \<and> is_backup target b)
      (tryE (os_rename target b)
         (\<lambda>e. give (not_committed (Wrapf ''move current executable aside: %w'' [] e)))
         (\<lambda>_. tryE (hideFile b) (\<lambda>e. rolled_back target b (Wrapf ''hide backup: %w'' [] e))
            (\<lambda>_. tryE (os_rename stage target)
               (\<lambda>e. rolled_back target b (Wrapf ''install staged executable: %w'' [] e))
               (\<lambda>_. remove_installed_backup b)))) ?Q"
    proof (cases "is_backup target b")
      case b: True
      have "triple (\<lambda>w. stable_env S w \<and> A w)
        (tryE (os_rename target b)
           (\<lambda>e. give (not_committed (Wrapf ''move current executable aside: %w'' [] e)))
           (\<lambda>_. tryE (hideFile b) (\<lambda>e. rolled_back target b (Wrapf ''hide backup: %w'' [] e))
              (\<lambda>_. tryE (os_rename stage target)
                 (\<lambda>e. rolled_back target b (Wrapf ''install staged executable: %w'' [] e))
                 (\<lambda>_. remove_installed_backup b)))) ?Q"
        by (rule triple_try [OF rename_rule [OF A aside [OF b]]], assumption+,
            rule triple_give, simp add: not_committed_def, rule moved [OF b])
      then show ?thesis by (rule triple_weaken) auto
    qed (simp add: triple_def)
  qed (rule triple_give, simp add: not_committed_def)
qed

text \<open>Which renames have happened.\<close>

definition installed_by :: "path \<Rightarrow> path \<Rightarrow> bytes \<Rightarrow> bool \<Rightarrow> effect list \<Rightarrow> world \<Rightarrow> bool" where
  "installed_by target stage d c rs0 w \<longleftrightarrow>
     (\<exists>rs. renames w = rs @ rs0 \<and> installs target stage d c rs)"

lemma installed_by_local: "local_to S (installed_by target stage d c rs0)"
  unfolding installed_by_def [abs_def]
  by (rule local_renames [where P = "\<lambda>r. \<exists>rs. r = rs @ rs0 \<and> installs target stage d c rs"])

lemma installed_by_blind: "effect_blind (installed_by target stage d c rs0)"
  unfolding installed_by_def [abs_def]
  by (rule blind_renames [where P = "\<lambda>r. \<exists>rs. r = rs @ rs0 \<and> installs target stage d c rs"])

lemma renames_updates [simp]:
  "renames (move_name a b w) = renames w" "renames (set_node i f w) = renames w"
  "renames (del_name p w) = renames w" "renames (add_node p nd w) = renames w"
  by (simp_all add: renames_def)

lemma replace_windows_renames:
  assumes S: "\<And>p. is_temp target p \<Longrightarrow> S p" and st: "is_stage target stage"
  shows "triple (\<lambda>w. stable_env S w \<and> node_at w stage = Some ns \<and> renames w = rs0)
    (replaceExecutable_windows stage target)
    (\<lambda>r w. stable_env S w \<and> (committed (fst r) \<or> snd r \<noteq> None)
       \<and> (\<exists>rs. renames w = rs @ rs0 \<and> installs target stage (n_content ns) (committed (fst r)) rs))"
proof -
  let ?I = "\<lambda>c. installed_by target stage (n_content ns) c rs0"
  let ?B = "\<lambda>b w. node_at w stage = Some ns \<and> ?I False w"
  have Sst: "S stage" using S is_stage_temp [OF st] by blast
  have nt: "stage \<noteq> target" "target \<noteq> stage" using stage_not_target [OF st] by auto
  have nb: "is_backup target b \<Longrightarrow> b \<noteq> stage \<and> b \<noteq> target" for b
    using stage_not_backup [OF st] is_backup_temp target_not_temp by blast
  have A: "local_to S (\<lambda>w. node_at w stage = Some ns \<and> renames w = rs0)"
    by (intro local_to_conj local_node_at Sst local_renames [where P = "\<lambda>r. r = rs0"])
  have attr: "attr_blind p (?I c)" for p c
    by (rule attr_blind_local [OF installed_by_local])
  have B: "local_to S (?B b)" for b
    by (intro local_to_conj local_node_at Sst installed_by_local)
  have Bb: "attr_blind b (?B b)" if "is_backup target b" for b
    by (intro attr_blind_conj attr) (use nb [OF that] Sst in \<open>auto intro!: attr_blind_local local_node_at\<close>)
  have post: "?I (committed r) w"
    if "if committed r then ?I True w else e \<and> (node_at w stage = Some ns \<and> renames w = rs0 \<or> ?I False w
      \<or> (\<exists>b u v. is_backup target b \<and> X b u v \<and> ?B b w))" for r w e X
    using that by (auto simp: installed_by_def installs_def split: if_splits)
  show ?thesis
  proof (rule triple_weaken [OF replace_windows_rule [OF A _ B Bb _ installed_by_local attr _
          installed_by_local installed_by_blind]])
    fix b w i
    assume b: "is_backup target b"
    show "after_rename target b (?B b) w"
      if "node_at w stage = Some ns \<and> renames w = rs0" "lookup w target = Some i"
      using that nb [OF b] nt
      by (auto simp: after_rename_def node_at_move_name installed_by_def installs_def)
    show "after_rename b target (?I False) w" if "?B b w"
      using that installs_backup [OF _ b]
      by (auto simp: after_rename_def installed_by_def)
    show "after_rename stage target (?I True) w" if "?B b w"
      using that installs_stage by (auto simp: after_rename_def installed_by_def content_at_def)
  next
    fix r :: "replacementResult \<times> gerror option" and w
    assume "stable_env S w \<and> (if committed (fst r) then ?I True w
       else snd r \<noteq> None \<and> (node_at w stage = Some ns \<and> renames w = rs0 \<or> ?I False w
            \<or> (\<exists>b u v. is_backup target b \<and> snd r = Some (RollbackErr target b u v) \<and> ?B b w)))"
    then show "stable_env S w \<and> (committed (fst r) \<or> snd r \<noteq> None)
       \<and> (\<exists>rs. renames w = rs @ rs0 \<and> installs target stage (n_content ns) (committed (fst r)) rs)"
      using post [of "fst r" w] unfolding installed_by_def [symmetric] by (cases "committed (fst r)") auto
  qed
qed

lemma replace_windows_safe:
  assumes S: "S target" "\<And>p. is_temp target p \<Longrightarrow> S p" and st: "is_stage target stage"
  shows "triple (\<lambda>w. stable_env S w \<and> node_at w stage = Some ns \<and> node_at w target = Some nt)
    (replaceExecutable_windows stage target)
    (\<lambda>r w. stable_env S w
       \<and> (if committed (fst r) then node_at w target = Some ns
          else original_safe target nt (snd r) w))"
proof -
  let ?B = "\<lambda>b w. node_at w stage = Some ns \<and> holds b nt w"
  have Sst: "S stage" using S(2) is_stage_temp [OF st] by blast
  have neq: "stage \<noteq> target" "target \<noteq> stage" using stage_not_target [OF st] by auto
  have nb: "is_backup target b \<Longrightarrow> b \<noteq> stage \<and> b \<noteq> target \<and> S b" for b
    using stage_not_backup [OF st] is_backup_temp target_not_temp S(2) by blast
  have A: "local_to S (\<lambda>w. node_at w stage = Some ns \<and> node_at w target = Some nt)"
    using S(1) Sst by (intro local_to_conj local_node_at)
  have B: "local_to S (?B b)" if "is_backup target b" for b
    using nb [OF that] Sst by (intro local_to_conj local_node_at local_holds) auto
  have Bb: "attr_blind b (?B b)" if "is_backup target b" for b
    by (intro attr_blind_conj attr_blind_holds)
      (use nb [OF that] Sst in \<open>auto intro!: attr_blind_local local_node_at\<close>)
  have D: "local_to (except S b) (\<lambda>w. node_at w target = Some ns)" if "is_backup target b" for b
    using nb [OF that] S(1) by (auto intro!: local_node_at)
  have Db: "effect_blind (\<lambda>w. node_at w target = Some ns)"
    by (simp add: effect_blind_def)
  show ?thesis
  proof (rule triple_weaken [OF replace_windows_rule [OF A _ B Bb _ local_holds [where S = S and p = target, OF S(1)] attr_blind_holds
          _ D Db]])
    fix b w i
    assume b: "is_backup target b"
    show "after_rename target b (?B b) w"
      if "node_at w stage = Some ns \<and> node_at w target = Some nt" "lookup w target = Some i"
      using that nb [OF b] neq
      by (auto simp: after_rename_def node_at_move_name holds_def)
    show "after_rename b target (holds target nt) w" if "?B b w" "lookup w b = Some i"
      using that by (auto simp: after_rename_def node_at_move_name holds_def)
    show "after_rename stage target (\<lambda>w. node_at w target = Some ns) w"
      if "?B b w" "lookup w stage = Some i"
      using that by (auto simp: after_rename_def node_at_move_name)
  next
    fix r :: "replacementResult \<times> gerror option" and w
    assume "stable_env S w \<and> (if committed (fst r) then node_at w target = Some ns
       else snd r \<noteq> None \<and> (node_at w stage = Some ns \<and> node_at w target = Some nt \<or> holds target nt w
            \<or> (\<exists>b u v. is_backup target b \<and> snd r = Some (RollbackErr target b u v) \<and> ?B b w)))"
    then show "stable_env S w
       \<and> (if committed (fst r) then node_at w target = Some ns
          else original_safe target nt (snd r) w)"
      by (auto simp: original_safe_def holds_self split: if_splits)
  qed
qed

end
