(* ===== verification/Platforms.thy ===== *)
theory Platforms
  imports Platform Replace_Unix Replace_Windows
begin

text \<open>
  The two platforms the program is built for, proved to keep the contract of Platform, and what
  the rule of \<^verbatim>\<open>Apply\<close> gives on each of them.
\<close>

definition unix_platform :: platform where
  "unix_platform =
     \<lparr>pf_replace = replaceExecutable_unix, pf_cleanupStaleBackups = cleanupStaleBackups_unix,
      pf_syncDirectory = syncDirectory_unix, pf_acquireFileLock = acquireFileLock_unix,
      pf_release = fileLock_release\<rparr>"

definition windows_platform :: platform where
  "windows_platform =
     \<lparr>pf_replace = replaceExecutable_windows, pf_cleanupStaleBackups = cleanupStaleBackups_windows,
      pf_syncDirectory = syncDirectory_windows, pf_acquireFileLock = acquireFileLock_windows,
      pf_release = fileLock_release\<rparr>"

lemma acquire_with_returns: "will_cancel w \<Longrightarrow> acquire_with nofollow handle retry busy p w \<noteq> None"
proof -
  assume c: "will_cancel w"
  obtain x w1 where x: "thenE ctx_check (os_open_create nofollow p) w = (x, w1)"
    by (cases "thenE ctx_check (os_open_create nofollow p) w")
  have "will_cancel w1"
  proof (cases "ctx_err w")
    case (Some e)
    with x c show ?thesis by (auto simp: thenE_def bindE_def ctx_check_def)
  next
    case None
    then have "os_open_create nofollow p w = (x, w1)"
      using x by (auto simp: thenE_def bindE_def ctx_check_def)
    moreover obtain s w2 where n: "next_step w = (s, w2)" by (cases "next_step w")
    moreover from n c have "will_cancel w2" by (rule next_step_will_cancel [rotated])
    moreover have "will_cancel (add_node p nd w2) = will_cancel w2" for nd
      by (simp add: will_cancel_def add_node_def)
    ultimately show ?thesis
      by (auto simp: os_open_create_def syscall_def split: option.splits if_splits)
  qed
  then show ?thesis
    using x acquire_loop_returns by (auto simp: acquire_with_def simp del: not_None_eq split: sum.splits option.split)
qed

interpretation unix: updating_platform unix_platform atomic_move untouched
proof unfold_locales
  show "local_to S A \<Longrightarrow> preserves (\<lambda>w. stable_env S w \<and> A w) (pf_syncDirectory unix_platform d)" for S A d
    by (simp add: unix_platform_def sync_unix_local)
  show "triple (\<lambda>w. stable_env S w \<and> A w) (pf_cleanupStaleBackups unix_platform target)
      (\<lambda>_ w. stable_env S w \<and> A w)" for S A target
    by (simp add: unix_platform_def cleanupStaleBackups_unix_def triple_give)
  show "triple (\<lambda>w. stable_env S w \<and> node_at w stage = Some ns \<and> renames w = rs0)
      (pf_replace unix_platform stage target)
      (\<lambda>r w. stable_env S w \<and> (committed (fst r) \<or> snd r \<noteq> None)
         \<and> (\<exists>rs. renames w = rs @ rs0 \<and> atomic_move target stage (n_content ns) (committed (fst r)) rs))"
    if "\<And>q. is_temp target q \<Longrightarrow> S q" "is_stage target stage" for S target stage ns rs0
    using replace_unix_renames [of target S, OF that] by (simp add: unix_platform_def)
  show "triple (\<lambda>w. stable_env S w \<and> node_at w stage = Some ns \<and> node_at w target = Some nt)
      (pf_replace unix_platform stage target)
      (\<lambda>r w. stable_env S w \<and> (if committed (fst r) then node_at w target = Some ns
         else untouched target nt (snd r) w))"
    if "S target" "\<And>q. is_temp target q \<Longrightarrow> S q" "is_stage target stage" for S target stage ns nt
    using replace_unix_safe [of S target, OF that] by (simp add: unix_platform_def)
  show "node_at w target = Some nt \<Longrightarrow> untouched target nt err w"
    "local_to (\<lambda>q. q = target \<or> is_backup target q) (untouched target nt err)"
    "effect_blind (untouched target nt err)" for target nt err w
    by (simp_all add: untouched_def [abs_def] effect_blind_def local_to_def same_on_def)
  show "stable_env S w' \<and> A w'"
    if "local_to (except S q) A" "stable_env S w \<and> A w"
      "pf_acquireFileLock unix_platform q w = Some (r, w')" for S q A w r w'
    by (rule Lock.acquire_frame [OF that(1,2)])
      (use that(3) in \<open>simp add: unix_platform_def acquireFileLock_unix_def\<close>)
  show "holds_lock f w'" if "pf_acquireFileLock unix_platform q w = Some (Inr f, w')" for q w f w'
    by (rule Lock.acquire_holds) (use that in \<open>simp add: unix_platform_def acquireFileLock_unix_def\<close>)
  show "pf_acquireFileLock unix_platform q w \<noteq> None" if "will_cancel w" for q w
    unfolding unix_platform_def acquireFileLock_unix_def platform.simps
    by (rule acquire_with_returns [OF that])
  show "preserves (\<lambda>w. stable_env S w \<and> A w) (pf_release unix_platform l)" if "local_to S A" for S A l
    unfolding unix_platform_def platform.simps by (rule Lock.release_frame [OF that])
  show "\<not> holds_lock f (snd (pf_release unix_platform (Some f) w))" for f w
    unfolding unix_platform_def platform.simps by (rule Lock.release_frees)
qed

interpretation windows: updating_platform windows_platform installs original_safe
proof unfold_locales
  show "local_to S A \<Longrightarrow> preserves (\<lambda>w. stable_env S w \<and> A w) (pf_syncDirectory windows_platform d)" for S A d
    by (simp add: windows_platform_def sync_windows_local)
  show "triple (\<lambda>w. stable_env S w \<and> A w) (pf_cleanupStaleBackups windows_platform target)
      (\<lambda>_ w. stable_env S w \<and> A w)"
    if "\<And>q. is_temp target q \<Longrightarrow> S q" "local_to (outer S target) A" "effect_blind A" for S A target
    using cleanup_windows_frame [of target S, OF that] by (simp add: windows_platform_def)
  show "triple (\<lambda>w. stable_env S w \<and> node_at w stage = Some ns \<and> renames w = rs0)
      (pf_replace windows_platform stage target)
      (\<lambda>r w. stable_env S w \<and> (committed (fst r) \<or> snd r \<noteq> None)
         \<and> (\<exists>rs. renames w = rs @ rs0 \<and> installs target stage (n_content ns) (committed (fst r)) rs))"
    if "\<And>q. is_temp target q \<Longrightarrow> S q" "is_stage target stage" for S target stage ns rs0
    using replace_windows_renames [of target S, OF that] by (simp add: windows_platform_def)
  show "triple (\<lambda>w. stable_env S w \<and> node_at w stage = Some ns \<and> node_at w target = Some nt)
      (pf_replace windows_platform stage target)
      (\<lambda>r w. stable_env S w \<and> (if committed (fst r) then node_at w target = Some ns
         else original_safe target nt (snd r) w))"
    if "S target" "\<And>q. is_temp target q \<Longrightarrow> S q" "is_stage target stage" for S target stage ns nt
    using replace_windows_safe [of S target, OF that] by (simp add: windows_platform_def)
  show "node_at w target = Some nt \<Longrightarrow> original_safe target nt err w"
    "local_to (\<lambda>q. q = target \<or> is_backup target q) (original_safe target nt err)"
    "effect_blind (original_safe target nt err)" for target nt err w
    by (simp_all add: original_safe_def holds_self local_original_safe blind_original_safe)
  show "stable_env S w' \<and> A w'"
    if "local_to (except S q) A" "stable_env S w \<and> A w"
      "pf_acquireFileLock windows_platform q w = Some (r, w')" for S q A w r w'
    by (rule Lock.acquire_frame [OF that(1,2)])
      (use that(3) in \<open>simp add: windows_platform_def acquireFileLock_windows_def\<close>)
  show "holds_lock f w'" if "pf_acquireFileLock windows_platform q w = Some (Inr f, w')" for q w f w'
    by (rule Lock.acquire_holds) (use that in \<open>simp add: windows_platform_def acquireFileLock_windows_def\<close>)
  show "pf_acquireFileLock windows_platform q w \<noteq> None" if "will_cancel w" for q w
    unfolding windows_platform_def acquireFileLock_windows_def platform.simps
    by (rule acquire_with_returns [OF that])
  show "preserves (\<lambda>w. stable_env S w \<and> A w) (pf_release windows_platform l)" if "local_to S A" for S A l
    unfolding windows_platform_def platform.simps by (rule Lock.release_frame [OF that])
  show "\<not> holds_lock f (snd (pf_release windows_platform (Some f) w))" for f w
    unfolding windows_platform_def platform.simps by (rule Lock.release_frees)
qed

section \<open>Staging\<close>

text \<open>C12 A stage file is made executable only when it is complete: on both platforms, staging that returns leaves the selected
  member's bytes, with exactly the permission bits of the mode asked for, under a fresh stage name, and staging that
  fails at any point leaves no stage file that is both executable and partial.\<close>

theorem stage_complete:
  assumes "is_temp target (f_path ar)" and "pf = unix_platform \<or> pf = windows_platform"
  shows "hoare (\<lambda>w. stable_env (is_temp target) w \<and> file_at ar an w
       \<and> stages_safe lib asset (n_content an) asz m old target None w)
     (stageExecutable lib pf target mode asset ar asz m)
     (\<lambda>p w. is_stage target p \<and> p \<noteq> f_path ar
        \<and> (\<exists>nd. staged lib asset (n_content an) asz m (mode mod 512) nd \<and> node_at w p = Some nd)
        \<and> stages_safe lib asset (n_content an) asz m old target None w)
     (\<lambda>_ w. stages_safe lib asset (n_content an) asz m old target None w)"
proof -
  note rules = unix.stageExecutable_rule [where S = "is_temp target" and A = "\<lambda>_. True" and target = target
      and ar = ar and an = an, OF _ _ _ assms(1)]
    windows.stageExecutable_rule [where S = "is_temp target" and A = "\<lambda>_. True" and target = target
      and ar = ar and an = an, OF _ _ _ assms(1)]
  from assms(2) show ?thesis
    by (elim disjE; hypsubst; intro hoare_weaken [OF rules(1)] hoare_weaken [OF rules(2)]) auto
qed

text \<open>A downloaded archive in a quiet world, staged on Unix with a mode that has the setuid bit.\<close>

definition staging_target :: path where
  "staging_target = Path ''/bin'' ''tool''"

definition staging_archive :: os_file where
  "staging_archive = File (temp_path staging_target ''archive'' (replicate 16 CHR 0x01)) 5"

definition staging_world :: world where
  "staging_world = empty_world
     \<lparr>dirents := [(f_path staging_archive, 5)], inodes := [(5, plain_node ''new'' 384)], next_ino := 6\<rparr>"

theorem stage_complete_witness:
  "\<exists>p w'. stageExecutable sample_archive unix_platform staging_target 2541 ''tool.tar.gz'' staging_archive 3 ''tool''
       staging_world = (Inr p, w')
     \<and> is_stage staging_target p \<and> node_at w' p = Some (plain_node ''new'' 493)"
proof -
  have "case stageExecutable sample_archive unix_platform staging_target 2541 ''tool.tar.gz'' staging_archive 3 ''tool''
       staging_world of (Inr p, w') \<Rightarrow> True | (Inl e, w') \<Rightarrow> False"
    by code_simp
  then obtain p w' where run: "stageExecutable sample_archive unix_platform staging_target 2541 ''tool.tar.gz''
      staging_archive 3 ''tool'' staging_world = (Inr p, w')"
    by (auto split: prod.splits sum.splits)
  have ar: "is_temp staging_target (f_path staging_archive)" by (simp add: staging_archive_def)
  have wf: "wf_world staging_world"
    by (auto simp: wf_world_def staging_world_def empty_world_def lookup_def node_of_def split: if_splits)
  have start: "stable_env (is_temp staging_target) staging_world
      \<and> file_at staging_archive (plain_node ''new'' 384) staging_world
      \<and> stages_safe sample_archive ''tool.tar.gz'' (n_content (plain_node ''new'' 384)) 3 ''tool'' (\<lambda>_ _. True)
          staging_target None staging_world"
    using wf by (simp add: stable_env_def env_avoids_def stages_safe_def file_at_def staging_world_def
        staging_archive_def empty_world_def node_at_def lookup_def node_of_def)
  have sel: "archive_select sample_archive ''tool.tar.gz'' ''new'' 3 ''tool'' = Some ''new''" by code_simp
  from hoareD_ok [OF stage_complete [OF ar disjI1 [OF refl]] start run] sel run show ?thesis
    by (auto simp: staged_def plain_node_def)
qed

end
