(* ===== verification/Apply_Safety.thy ===== *)
theory Apply_Safety
  imports Platforms
begin

text \<open>
  What \<^verbatim>\<open>Apply\<close> guarantees, from the rule of Platform: only verified bytes are renamed onto the
  executable, the reported commit is the truth, and the original executable survives every
  failure. The rules hold on every platform that keeps the contract; the properties state them
  on the two platforms of the program.
\<close>

section \<open>Hashing a file that stays as it is\<close>

lemma os_open_rule:
  assumes S: "S p" and A: "local_to S A"
  shows "hoare (\<lambda>w. stable_env S w \<and> (A w \<and> node_at w p = Some nd)) (os_open p)
    (\<lambda>f w. stable_env S w \<and> (A w \<and> file_at f nd w) \<and> f_path f = p)
    (\<lambda>_ w. stable_env S w \<and> (A w \<and> node_at w p = Some nd))"
  unfolding os_open_def
  by (rule hoare_syscall_local)
    (use A S local_node_at [of S p] in \<open>auto simp: hoare_def file_at_def split: option.split\<close>)

lemma hash_rule:
  assumes S: "S target" and A: "local_to S A"
  shows "hoare (\<lambda>w. stable_env S w \<and> (A w \<and> node_at w target = Some nt)) (hashExecutable lb target)
    (\<lambda>r w. (stable_env S w \<and> (A w \<and> node_at w target = Some nt))
       \<and> (fst r = lb_sha256 lb (n_content nt) \<and> snd r = n_perm nt mod 512 \<and> n_kind nt = Regular))
    (\<lambda>_ w. stable_env S w \<and> (A w \<and> node_at w target = Some nt))"
    (is "hoare ?P _ ?Q _")
proof -
  let ?F = "\<lambda>f w. stable_env S w \<and> A w \<and> file_at f nt w"
  have known: "?P w" if "?F f w" "f_path f = target" for f w
    using that by (auto simp: file_at_def)
  have body: "hoare (?F f) (hash_opened lb f)
      (\<lambda>r w. ?F f w \<and> (fst r = lb_sha256 lb (n_content nt) \<and> snd r = n_perm nt mod 512 \<and> n_kind nt = Regular))
      (\<lambda>_. ?F f)" if f: "f_path f = target" for f
  proof -
    have Sf: "S (f_path f)" using S f by simp
    have loc: "local_to S (\<lambda>w. A w \<and> file_at f nt w)"
      by (rule local_to_conj [OF A]) (rule local_file_at, rule Sf)
    have stat: "hoare (?F f) (os_stat f) (\<lambda>r w. ?F f w \<and> r = nt) (\<lambda>_. ?F f)"
      by (rule hoare_weaken [OF os_stat_rule [OF Sf A]]) auto
    have content: "hoare (?F f) (os_content f) (\<lambda>c w. ?F f w \<and> c = n_content nt) (\<lambda>_. ?F f)"
      by (rule hoare_weaken [OF os_content_rule [OF Sf A]]) auto
    have read: "preserves (?F f) (contextReader (syscall (ret ())))"
      unfolding contextReader_def
      by (rule hoare_then [OF ctx_check_local syscall_ret_local [OF loc]])
    have copy: "hoare (?F f) (copyBounded (contextReader (syscall (ret ()))) no_write (file_stream c)
        maxBinaryBytes d) (\<lambda>out w. ?F f w \<and> out = c) (\<lambda>_. ?F f)" for c d
      by (rule hoare_weaken [OF copyBounded_rule [where I = "\<lambda>_. ?F f"]])
        (auto simp: no_write_def maxBinaryBytes_def intro: read hoare_ret)
    show ?thesis
      unfolding hash_opened_def
      by (rule hoare_bind [OF hoare_wrap_any [OF stat]], rule hoare_fact, rule hoare_if, rule hoare_fail,
          assumption, rule hoare_bind [OF hoare_wrap_any [OF content]], rule hoare_fact,
          rule hoare_bind [OF copy], rule hoare_fact, rule hoare_ret) auto
  qed
  show ?thesis
    unfolding hashExecutable_def
  proof (rule hoare_bind [OF hoare_wrap_any [OF os_open_rule [where p = target, OF S A]]])
    fix f
    have loc: "local_to S (\<lambda>w. A w \<and> node_at w target = Some nt)"
      using S by (intro local_to_conj A local_node_at)
    show "hoare (\<lambda>w. stable_env S w \<and> (A w \<and> file_at f nt w) \<and> f_path f = target)
      (finallyE (hash_opened lb f) (os_close f)) ?Q (\<lambda>_. ?P)"
    proof (rule hoare_pre [OF hoare_fact [where P = "?F f" and b = "f_path f = target"]])
      assume f: "f_path f = target"
      have closed: "hoare (\<lambda>w. ?P w \<and> b) (os_close f) (\<lambda>_ w. ?P w \<and> b) (\<lambda>_ w. ?P w \<and> b)" for b
        by (rule hoare_fact, rule hoare_weaken [OF pure_calls(6) [OF loc]]) auto
      show "hoare (?F f)
        (finallyE (hash_opened lb f) (os_close f)) ?Q (\<lambda>_. ?P)"
        by (rule hoare_finally [OF hoare_weaken [OF body [OF f]] closed pure_calls(6) [OF loc]])
          (use known f in auto)
    qed auto
  qed
qed

section \<open>Which renames happen\<close>

text \<open>
  What a call of \<^verbatim>\<open>Apply\<close> with result \<open>r\<close> may have done with its renames \<open>rs\<close>, on a platform whose
  replacements do \<open>M\<close>: it renamed nothing, or did one replacement by verified bytes; and its result
  is the plan's exactly when that replacement was committed.
\<close>

definition acted ::
  "(path \<Rightarrow> path \<Rightarrow> bytes \<Rightarrow> bool \<Rightarrow> effect list \<Rightarrow> bool) \<Rightarrow> libs \<Rightarrow> updater \<Rightarrow> plan \<Rightarrow> result \<Rightarrow> effect list \<Rightarrow> bool"
where
  "acted M lb u p r rs \<longleftrightarrow>
     (if res_Committed r
      then r = \<lparr>res_Committed = True, res_CleanupPending = res_CleanupPending r,
                res_PreviousVersion = pl_currentVersion p, res_Version = pl_availableVersion p,
                res_Executable = Some (pl_executable p)\<rparr>
      else r = no_result)
     \<and> (\<not> res_Committed r \<and> rs = []
        \<or> (\<exists>stage d. is_stage (pl_executable p) stage \<and> verified lb u p d
              \<and> M (pl_executable p) stage d (res_Committed r) rs))"

text \<open>
  On Windows: it says committed exactly when verified bytes were renamed onto the executable, and
  nothing else was renamed onto it but a backup.
\<close>

definition applied :: "libs \<Rightarrow> updater \<Rightarrow> plan \<Rightarrow> result \<Rightarrow> effect list \<Rightarrow> bool" where
  "applied lb u p r rs \<longleftrightarrow>
     (if res_Committed r
      then r = \<lparr>res_Committed = True, res_CleanupPending = res_CleanupPending r,
                res_PreviousVersion = pl_currentVersion p, res_Version = pl_availableVersion p,
                res_Executable = Some (pl_executable p)\<rparr>
        \<and> (\<exists>stage d. is_stage (pl_executable p) stage \<and> verified lb u p d
             \<and> installs (pl_executable p) stage d True rs)
      else r = no_result
        \<and> (\<forall>a x. ERename a (pl_executable p) x \<in> set rs \<longrightarrow> is_backup (pl_executable p) a))"

lemma acted_installs: "acted installs lb u p r rs \<Longrightarrow> applied lb u p r rs"
  by (cases "res_Committed r") (auto simp: acted_def applied_def installs_def)

lemma res_Committed_result_of [simp]: "res_Committed (result_of p target b r) = committed r"
  by (simp add: result_of_def no_result_def)

lemma acted_intro:
  assumes "is_stage (pl_executable p) stage" "verified lb u p d"
    "M (pl_executable p) stage d (committed r) rs"
  shows "acted M lb u p (result_of p (pl_executable p) b r) rs"
proof (cases "committed r")
  case True
  with assms show ?thesis by (auto simp: acted_def result_of_def)
next
  case False
  with assms show ?thesis
    by (auto simp: acted_def result_of_def no_result_def)
qed

definition did ::
  "(path \<Rightarrow> path \<Rightarrow> bytes \<Rightarrow> bool \<Rightarrow> effect list \<Rightarrow> bool) \<Rightarrow> libs \<Rightarrow> updater \<Rightarrow> plan \<Rightarrow> effect list \<Rightarrow>
   result \<Rightarrow> gerror option \<Rightarrow> world \<Rightarrow> bool" where
  "did M lb u p rs0 r re w \<longleftrightarrow> (\<exists>rs. renames w = rs @ rs0 \<and> acted M lb u p r rs)"

lemma did_frame: "local_to S (did M lb u p rs0 r re)" "effect_blind (did M lb u p rs0 r re)"
  unfolding did_def [abs_def]
  by (rule local_renames [where P = "\<lambda>x. \<exists>rs. x = rs @ rs0 \<and> acted M lb u p r rs"],
      rule blind_renames [where P = "\<lambda>x. \<exists>rs. x = rs @ rs0 \<and> acted M lb u p r rs"])

lemma did_nothing: "renames w = rs0 \<Longrightarrow> did M lb u p rs0 no_result re w"
  by (auto simp: did_def acted_def no_result_def)

context updating_platform
begin

lemma apply_verified:
  assumes guards: "apply_guards lb receiver ctx pl = Inr (u, p)" and hook: "up_beforeCommit u = None"
    and env: "stable_env (is_temp (pl_executable p)) w"
    and run: "Apply lb pf receiver ctx pl w = Some ((r, e), w')"
  shows "\<exists>rs. renames w' = rs @ renames w \<and> acted moves lb u p r rs"
proof -
  let ?S = "is_temp (pl_executable p)" and ?A = "\<lambda>w'. renames w' = renames w"
  let ?Q = "did moves lb u p (renames w)" and ?H = "\<lambda>_ _. True"
  have A: "local_to S ?A" "effect_blind ?A" for S
    by (rule local_renames [where P = "\<lambda>x. x = renames w"], rule blind_renames [where P = "\<lambda>x. x = renames w"])
  have law: "commit_law pf lb u p (pl_executable p) ?S ?A ?H ?Q"
    unfolding commit_law_def
  proof (intro allI impI)
    fix stage d and mode :: nat
    assume st: "is_stage (pl_executable p) stage" and d: "verified lb u p d"
    have P: "triple (\<lambda>w'. stable_env ?S w' \<and> node_at w' stage = Some (plain_node d (mode mod 512)) \<and> renames w' = renames w)
        (pf_replace pf stage (pl_executable p))
        (\<lambda>r w'. stable_env ?S w' \<and> (\<forall>b. ?Q (result_of p (pl_executable p) b (fst r)) (snd r) w'))"
      by (rule triple_weaken [OF replace_renames [where S = ?S and ns = "plain_node d (mode mod 512)", OF _ st]])
        (use acted_intro [where M = moves, OF st d] in \<open>auto simp: did_def plain_node_def\<close>)
    show "triple (\<lambda>w'. stable_env ?S w' \<and> ?A w' \<and> node_at w' stage = Some (plain_node d (mode mod 512)))
        (pf_replace pf stage (pl_executable p))
        (\<lambda>r w'. stable_env ?S w' \<and> (\<forall>b. ?Q (result_of p (pl_executable p) b (fst r)) (snd r) w'))"
      by (rule triple_weaken [OF P]) auto
  qed
  have hash: "hash_law lb (pl_executable p) ?S ?A ?H"
    unfolding hash_law_def using hash_frame [OF A(1)] by simp
  have ready: "apply_setup pf lb u p (pl_executable p) ?S ?A ?H ?Q"
    by (rule apply_setupI [OF hook _ lock_path_not_temp A did_frame did_nothing law hash])
  have "final ?S ?Q (r, e) w'"
    by (rule Apply_rule [OF guards ready _ run]) (use env in simp)
  then show ?thesis by (auto simp: final_def did_def)
qed

end

section \<open>What becomes of the executable\<close>

text \<open>
  When other processes leave the executable and the temporary names alone: after a commit it is
  the verified bytes with the permissions it had, and what was replaced is what the plan was made
  for; otherwise the original is unharmed, in the sense \<open>U\<close> of the platform.
\<close>

definition after_apply ::
  "(path \<Rightarrow> node \<Rightarrow> gerror option \<Rightarrow> world \<Rightarrow> bool) \<Rightarrow> libs \<Rightarrow> updater \<Rightarrow> plan \<Rightarrow> node \<Rightarrow> result \<Rightarrow>
   gerror option \<Rightarrow> world \<Rightarrow> bool" where
  "after_apply U lb u p nt r re w \<longleftrightarrow>
     (if res_Committed r
      then lb_sha256 lb (n_content nt) = pl_executableHash p \<and> n_kind nt = Regular
        \<and> (\<exists>d. verified lb u p d
             \<and> node_at w (pl_executable p) = Some (plain_node d (n_perm nt mod 512)))
      else U (pl_executable p) nt re w)"

text \<open>On Windows the original is in place, or at the backup path that the error names.\<close>

definition executable_after ::
  "libs \<Rightarrow> updater \<Rightarrow> plan \<Rightarrow> node \<Rightarrow> result \<Rightarrow> gerror option \<Rightarrow> world \<Rightarrow> bool" where
  "executable_after lb u p nt r re w \<longleftrightarrow>
     (if res_Committed r
      then lb_sha256 lb (n_content nt) = pl_executableHash p \<and> n_kind nt = Regular
        \<and> (\<exists>d. verified lb u p d
             \<and> node_at w (pl_executable p) = Some (plain_node d (n_perm nt mod 512)))
      else original_safe (pl_executable p) nt re w)"

text \<open>The names of the program: the executable and its temporary files.\<close>

definition own_names :: "path \<Rightarrow> path \<Rightarrow> bool" where
  "own_names target q \<longleftrightarrow> q = target \<or> is_temp target q"

lemma own_names_lock: "\<not> own_names target (lock_path target)"
  using lock_path_not_temp by (auto simp: own_names_def lock_path_def dest!: arg_cong [where f = base_of])

lemma backup_kept: "is_backup target b \<Longrightarrow> kept (own_names target) target b"
  using is_backup_temp stage_not_backup stale_names_disjoint [of target "''archive''" "base_of b" "''backup''"]
  by (auto simp: own_names_def is_backup_def is_archive_def)

lemma target_kept: "kept (own_names target) target target"
  using is_stage_temp [of target target] is_archive_temp [of target target] by (auto simp: own_names_def)

lemma executable_after_eq: "executable_after = after_apply original_safe"
  by (simp add: fun_eq_iff executable_after_def after_apply_def)

lemma after_apply_local:
  assumes "local_to (\<lambda>q. q = pl_executable p \<or> is_backup (pl_executable p) q) (U (pl_executable p) nt re)"
  shows "local_to (kept (own_names (pl_executable p)) (pl_executable p)) (after_apply U lb u p nt r re)"
  unfolding local_to_def
proof (intro allI impI)
  fix w w'
  let ?t = "pl_executable p"
  assume same: "same_on (kept (own_names ?t) ?t) w w'" and e: "after_apply U lb u p nt r re w"
  have t: "node_at w' ?t = node_at w ?t"
    using same target_kept unfolding same_on_def by blast
  have "same_on (\<lambda>q. q = ?t \<or> is_backup ?t q) w w'"
    using same target_kept [of ?t] backup_kept [of ?t] unfolding same_on_def by blast
  from local_toD [OF assms this] e t show "after_apply U lb u p nt r re w'"
    by (auto simp: after_apply_def split: if_splits)
qed

lemma after_apply_blind: "effect_blind (U (pl_executable p) nt re) \<Longrightarrow> effect_blind (after_apply U lb u p nt r re)"
  by (simp add: effect_blind_def after_apply_def)

context updating_platform
begin

lemma apply_executable:
  assumes guards: "apply_guards lb receiver ctx pl = Inr (u, p)" and hook: "up_beforeCommit u = None"
    and env: "stable_env (own_names (pl_executable p)) w" and nt: "node_at w (pl_executable p) = Some nt"
    and run: "Apply lb pf receiver ctx pl w = Some ((r, e), w')"
  shows "\<exists>re. after_apply unharmed lb u p nt r re w' \<and> carries re e"
proof -
  let ?t = "pl_executable p"
  let ?S = "own_names ?t" and ?A = "\<lambda>w. node_at w ?t = Some nt"
  let ?H = "\<lambda>h m. h = lb_sha256 lb (n_content nt) \<and> m = n_perm nt mod 512 \<and> n_kind nt = Regular"
  let ?Q = "after_apply unharmed lb u p nt"
  have S: "?S ?t" "\<And>q. is_temp ?t q \<Longrightarrow> ?S q" by (simp_all add: own_names_def)
  have A: "local_to (outer ?S ?t) ?A" "effect_blind ?A"
    using S by (auto intro!: local_node_at simp: effect_blind_def)
  have law: "commit_law pf lb u p ?t ?S ?A ?H ?Q"
    unfolding commit_law_def
  proof (intro allI impI)
    fix stage d mode
    assume st: "is_stage ?t stage" and d: "verified lb u p d" and H: "?H (pl_executableHash p) mode"
    have P: "triple (\<lambda>w. stable_env ?S w \<and> node_at w stage = Some (plain_node d (mode mod 512)) \<and> node_at w ?t = Some nt)
        (pf_replace pf stage ?t)
        (\<lambda>r w. stable_env ?S w \<and> (\<forall>b. ?Q (result_of p ?t b (fst r)) (snd r) w))"
      by (rule triple_weaken [OF replace_safe [where S = ?S and target = ?t and ns = "plain_node d (mode mod 512)" and nt = nt,
            OF S st]])
        (use d H in \<open>auto simp: after_apply_def split: if_splits\<close>)
    show "triple (\<lambda>w. stable_env ?S w \<and> ?A w \<and> node_at w stage = Some (plain_node d (mode mod 512)))
        (pf_replace pf stage ?t)
        (\<lambda>r w. stable_env ?S w \<and> (\<forall>b. ?Q (result_of p ?t b (fst r)) (snd r) w))"
      by (rule triple_weaken [OF P]) auto
  qed
  have hash: "hash_law lb ?t ?S ?A ?H"
    unfolding hash_law_def
    by (rule hoare_weaken [OF hash_rule [where A = "\<lambda>_. True" and S = ?S and target = ?t and nt = nt,
          OF S(1)]]) auto
  have start: "?Q no_result None w" if "?A w" for w
    using that by (auto simp: after_apply_def no_result_def unharmed_start)
  have ready: "apply_setup pf lb u p ?t ?S ?A ?H ?Q"
    by (rule apply_setupI [OF hook S(2) own_names_lock A after_apply_local [where U = unharmed, OF unharmed_local]
          after_apply_blind [where U = unharmed, OF unharmed_blind] start law hash])
  have "final ?S ?Q (r, e) w'"
    by (rule Apply_rule [OF guards ready _ run]) (use env nt in simp)
  then show ?thesis by (auto simp: final_def)
qed

end

section \<open>Apply returns\<close>

lemma resolve_will_cancel:
  assumes "will_cancel w" "resolveExecutable w = (r, w')"
  shows "will_cancel w'"
proof -
  have call: "preserves will_cancel (syscall m)" if "\<And>w. snd (m w) = w" for m :: "'x io"
    unfolding hoare_def
  proof (intro allI impI)
    fix w
    assume w: "will_cancel w"
    obtain s w1 where n: "next_step w = (s, w1)" by (cases "next_step w")
    have "will_cancel w1" by (rule next_step_will_cancel [OF w n])
    with n that [of w1] show "case syscall m w of (Inl e, w') \<Rightarrow> will_cancel w' | (Inr a, w') \<Rightarrow> will_cancel w'"
      by (cases "m w1") (auto simp: syscall_def split: option.split sum.split)
  qed
  have calls: "preserves will_cancel executablePath" "preserves will_cancel (filepath_abs p)"
    "preserves will_cancel (evalSymlinks p)" for p
    unfolding executablePath_def filepath_abs_def evalSymlinks_def
    by (rule call; simp add: askE_def split: option.split)+
  have "preserves will_cancel resolveExecutable"
    unfolding resolveExecutable_def
    by (rule hoare_bind [OF hoare_wrap_any [OF calls(1)]], rule hoare_if, rule hoare_fail, assumption,
        rule hoare_bind [OF hoare_wrap_any [OF calls(2)]], rule hoare_wrap_any [OF calls(3)])
  with assms show ?thesis by (cases r) (auto dest: hoareD_ok hoareD_err)
qed

context updating_platform
begin

lemma apply_returns:
  assumes "will_cancel w"
  shows "Apply lb pf receiver ctx pl w \<noteq> None"
proof (cases "apply_guards lb receiver ctx pl")
  case (Inl e)
  then show ?thesis by (simp add: Apply_def)
next
  case (Inr up)
  obtain r w1 where r: "resolveExecutable w = (r, w1)" by (cases "resolveExecutable w")
  from resolve_will_cancel [OF assms r] have "pf_acquireFileLock pf q w1 \<noteq> None" for q
    by (rule acquire_returns)
  then show ?thesis
    unfolding Apply_def using Inr r
    by (cases up; cases r; cases "pf_acquireFileLock pf (lock_path (pl_executable (snd up))) w1")
      (simp_all del: not_None_eq split: prod.split sum.split)
qed

end

end
