(* ===== verification/Samples.thy ===== *)
theory Samples
  imports Platforms
begin

text \<open>
  A concrete updater, plan and world, on which the properties of the whole are witnessed: a tool
  at version v1.0.0 on Linux, a release v1.2.0, and servers that answer.
\<close>

definition sample_target :: path where
  "sample_target = Path ''/bin'' ''tool''"

definition sample_plan :: plan where
  "sample_plan =
     \<lparr>pl_updater = 1, pl_binding = replicate 32 CHR ''b'', pl_currentVersion = ''v1.0.0'',
      pl_availableVersion = ''v1.2.0'', pl_comparable = True, pl_updateAvailable = True,
      pl_targeted = False, pl_release = no_release, pl_assetName = ''tool_linux_amd64.tar.gz'',
      pl_assetURL = ''https://github.com/acme/tool/a'', pl_assetSize = 3,
      pl_archiveDigest = sample_hash ''new'', pl_provenance = None, pl_executable = sample_target,
      pl_executableHash = sample_hash ''old'', pl_goos = ''linux'', pl_goarch = ''amd64''\<rparr>"

definition sample_world :: "reply list \<Rightarrow> world" where
  "sample_world rs =
     \<lparr>dirents = [(sample_target, 0)], inodes = [(0, plain_node ''old'' 493)], next_ino = 1,
      exe_name = ''/bin/tool'', exe_abs = (\<lambda>s. s), exe_links = [(''/bin/tool'', sample_target)],
      ctx_err = None, script = [], rand_fn = (\<lambda>n. CHR 0x00), rand_pos = 0,
      replies = rs, flocks = [], effects = []\<rparr>"

text \<open>The same on Windows.\<close>

definition windows_updater :: updater where
  "windows_updater = sample_updater\<lparr>up_goos := ''windows''\<rparr>"

definition windows_target :: path where
  "windows_target = Path ''C:/bin'' ''tool.exe''"

definition windows_plan :: plan where
  "windows_plan = sample_plan\<lparr>pl_goos := ''windows'', pl_assetName := ''tool_windows_amd64.zip'',
     pl_executable := windows_target\<rparr>"

definition windows_world :: "reply list \<Rightarrow> world" where
  "windows_world rs = (sample_world rs)
     \<lparr>dirents := [(windows_target, 0)], exe_links := [(''/bin/tool'', windows_target)]\<rparr>"

lemma sample_wf: "wf_world (sample_world rs)"
  by (auto simp: wf_world_def sample_world_def lookup_def node_of_def split: if_splits)

lemma windows_wf: "wf_world (windows_world rs)"
  by (auto simp: wf_world_def windows_world_def sample_world_def lookup_def node_of_def split: if_splits)

text \<open>In a quiet environment every set of names is left alone.\<close>

lemma sample_stable: "stable_env S (sample_world rs)"
  using sample_wf by (simp add: stable_env_def env_avoids_def sample_world_def)

lemma windows_stable: "stable_env S (windows_world rs)"
  using windows_wf by (simp add: stable_env_def env_avoids_def windows_world_def sample_world_def)

text \<open>The update of the sample, on both platforms.\<close>

lemma sample_unix_run:
  "\<exists>r w'. Apply sample_libs unix_platform (Some sample_updater) True (Some sample_plan)
       (sample_world [answer ''new'']) = Some ((r, None), w')
     \<and> res_Committed r \<and> node_at w' sample_target = Some (plain_node ''new'' 493)"
proof -
  have "case Apply sample_libs unix_platform (Some sample_updater) True (Some sample_plan)
       (sample_world [answer ''new'']) of
     Some ((r, e), w') \<Rightarrow> e = None \<and> res_Committed r \<and> node_at w' sample_target = Some (plain_node ''new'' 493)
   | None \<Rightarrow> False"
    by code_simp
  then show ?thesis by (auto split: option.splits prod.splits)
qed

lemma sample_windows_run:
  "\<exists>r w'. Apply sample_libs windows_platform (Some windows_updater) True (Some windows_plan)
       (windows_world [answer ''new'']) = Some ((r, None), w')
     \<and> res_Committed r \<and> node_at w' windows_target = Some (plain_node ''new'' 493)"
proof -
  have "case Apply sample_libs windows_platform (Some windows_updater) True (Some windows_plan)
       (windows_world [answer ''new'']) of
     Some ((r, e), w') \<Rightarrow> e = None \<and> res_Committed r \<and> node_at w' windows_target = Some (plain_node ''new'' 493)
   | None \<Rightarrow> False"
    by code_simp
  then show ?thesis by (auto split: option.splits prod.splits)
qed

lemma sample_guards:
  "apply_guards sample_libs (Some sample_updater) True (Some sample_plan) = Inr (sample_updater, sample_plan)"
  "apply_guards sample_libs (Some windows_updater) True (Some windows_plan) = Inr (windows_updater, windows_plan)"
proof -
  have g: "isStableVersion (lb_semver sample_libs) ''v1.2.0''"
    "sv_compare (lb_semver sample_libs) ''v1.0.0'' ''v1.2.0'' < 0"
    by code_simp+
  then show "apply_guards sample_libs (Some sample_updater) True (Some sample_plan) = Inr (sample_updater, sample_plan)"
    "apply_guards sample_libs (Some windows_updater) True (Some windows_plan) = Inr (windows_updater, windows_plan)"
    by (simp_all add: apply_guards_def sample_updater_def sample_plan_def windows_updater_def windows_plan_def)
qed

end
