(* ===== verification/Check_Safety.thy ===== *)
theory Check_Safety
  imports Samples
begin

text \<open>
  What a plan says: \<^verbatim>\<open>Check\<close> and \<^verbatim>\<open>CheckVersion\<close> return a plan only for metadata that passed every
  check and, with an attestation policy, only after the verifier accepted a bundle for exactly the
  planned artifact; \<^verbatim>\<open>Apply\<close> takes such a plan exactly when it is an upgrade or an allowed
  downgrade; and the token travels to the API's host only.
\<close>

section \<open>The shape of a plan\<close>

definition plan_of ::
  "libs \<Rightarrow> updater \<Rightarrow> releaseInfo \<Rightarrow> releaseAsset \<Rightarrow> bool \<Rightarrow> provenanceRecord option \<Rightarrow> path \<Rightarrow> bytes \<Rightarrow> plan"
where
  "plan_of lb u release asset targeted provenance executable hash =
     \<lparr>pl_updater = up_addr u, pl_binding = up_binding u, pl_currentVersion = up_currentVersion u,
      pl_availableVersion = rel_Version release, pl_comparable = up_currentStable u,
      pl_updateAvailable = update_available lb u (rel_Version release), pl_targeted = targeted,
      pl_release = release, pl_assetName = ra_name asset, pl_assetURL = ra_downloadURL asset,
      pl_assetSize = ra_size asset, pl_archiveDigest = ra_digest asset, pl_provenance = provenance,
      pl_executable = executable, pl_executableHash = hash, pl_goos = up_goos u,
      pl_goarch = up_goarch u\<rparr>"

text \<open>The provenance of a plan under the updater's policy.\<close>

definition provenance_ok :: "updater \<Rightarrow> releaseInfo \<Rightarrow> releaseAsset \<Rightarrow> provenanceRecord option \<Rightarrow> bool" where
  "provenance_ok u release asset provenance \<longleftrightarrow>
     (if up_attestationWorkflow u = [] then provenance = None
      else provenance = Some (newProvenanceRecord u release asset)
        \<and> (\<exists>v. up_attestationVerifier u = Some v \<and> accepted v (attestation_request u release asset)))"

lemma verify_provenance_ok:
  assumes "verify_provenance lb u release asset w = (Inr provenance, w')"
  shows "provenance_ok u release asset provenance"
proof (cases "up_attestationWorkflow u = []")
  case True
  with assms show ?thesis by (simp add: verify_provenance_def provenance_ok_def ret_Inr)
next
  case False
  with assms obtain v where v: "up_attestationVerifier u = Some v"
    by (cases "up_attestationVerifier u") (simp_all add: verify_provenance_def fail_Inr)
  with False assms obtain rec w1 where r: "provenance = Some rec"
    "verifyAttestation lb u v release asset w = (Inr rec, w1)"
    by (auto simp: verify_provenance_def Inr_simps)
  from verifyAttestation_sound [OF r(2)] r(1) v False show ?thesis
    by (simp add: provenance_ok_def)
qed

lemma buildPlan_ok:
  assumes "buildPlan lb u release asset member targeted w = (Inr p, w')"
  shows "\<exists>provenance executable hash.
    p = plan_of lb u release asset targeted provenance executable hash
    \<and> provenance_ok u release asset provenance \<and> base_of executable = member"
proof -
  from assms obtain provenance w1 where pv: "verify_provenance lb u release asset w = (Inr provenance, w1)"
    and rest: "(bindE resolveExecutable
            (\<lambda>executable.
               if base_of executable \<noteq> member
               then fail (Errorf ''selfupdate: executable name %q does not match archive member %q''
                 [AStr (base_of executable), AStr member])
               else bindE (hashExecutable lb executable)
                 (\<lambda>(hash, mode). thenE ctx_check
                    (ret (plan_of lb u release asset targeted provenance executable hash))))) w1 = (Inr p, w')"
    unfolding buildPlan_def bindE_Inr [of "verify_provenance lb u release asset"] plan_of_def by blast
  from rest obtain executable w2 where "base_of executable = member"
    and "bindE (hashExecutable lb executable)
                 (\<lambda>(hash, mode). thenE ctx_check
                    (ret (plan_of lb u release asset targeted provenance executable hash))) w2 = (Inr p, w')"
    by (auto simp: bindE_Inr [of resolveExecutable] if_Inr fail_Inr split: if_splits)
  then obtain hash where "p = plan_of lb u release asset targeted provenance executable hash"
    by (auto simp: Inr_simps split: prod.splits)
  with \<open>base_of executable = member\<close> verify_provenance_ok [OF pv] show ?thesis by blast
qed

lemma fetchRelease_ok:
  assumes "fetchRelease lb u sfx name w = (Inr (release, asset), w')"
  shows "\<exists>m. check_release lb u name m = Inr (release, asset)"
proof -
  have "hoare (\<lambda>_. True) (fetchRelease lb u sfx name)
      (\<lambda>r _. \<exists>m. check_release lb u name m = Inr r) (\<lambda>_ _. True)"
  proof -
    have any: "hoare (\<lambda>_. True) m (\<lambda>_ _. True) (\<lambda>_ _. True)" for m :: "'x io"
      by (simp add: hoare_def split: prod.split sum.split)
    have tail: "hoare (\<lambda>_. True)
       (case x of (metadata, second) \<Rightarrow>
          (case ensureJSONEnd second of
            Some e \<Rightarrow> fail e | None \<Rightarrow> liftE (check_release lb u name metadata)))
       (\<lambda>r _. \<exists>m. check_release lb u name m = Inr r) (\<lambda>_ _. True)" for x
      by (auto intro!: hoare_fail hoare_lift split: prod.split option.split)
    show ?thesis
      unfolding fetchRelease_def
      by (rule hoare_bind [OF any], rule hoare_bind [OF any], rule hoare_bind [OF any],
          rule hoare_bind [OF any tail])
  qed
  from hoareD_ok [OF this _ assms] show ?thesis by simp
qed

lemma fetchReleaseByTag_ok:
  assumes "fetchReleaseByTag lb u version name w = (Inr (release, asset), w')"
  shows "(\<exists>m. check_release lb u name m = Inr (release, asset)) \<and> rel_Version release = version"
proof -
  from assms obtain w1 where
    "handleE (fetchRelease lb u (''releases/tags/'' @ path_escape version) name)
         (\<lambda>e. if as_http_status e = Some 404
               then fail (Wrapf ''selfupdate: release %s not found: %w'' [AStr version] e)
               else fail e) w = (Inr (release, asset), w1)" "rel_Version release = version"
    by (auto simp: fetchReleaseByTag_def Inr_simps split: if_splits)
  moreover from this(1) have
    "fetchRelease lb u (''releases/tags/'' @ path_escape version) name w = (Inr (release, asset), w1)"
    by (auto simp: handleE_def fail_def split: prod.splits sum.splits if_splits)
  ultimately show ?thesis using fetchRelease_ok by blast
qed

text \<open>
  A checked plan: there is metadata with the release and the asset, the names are the platform's,
  and the provenance follows the policy.
\<close>

definition checked_plan :: "libs \<Rightarrow> updater \<Rightarrow> bool \<Rightarrow> plan \<Rightarrow> bool" where
  "checked_plan lb u targeted p \<longleftrightarrow>
     (\<exists>name member m release asset provenance executable hash.
        expectedNames (up_command u) (up_goos u) (up_goarch u) = Inr (name, member)
        \<and> check_release lb u name m = Inr (release, asset)
        \<and> p = plan_of lb u release asset targeted provenance executable hash
        \<and> provenance_ok u release asset provenance \<and> base_of executable = member)"

lemma Check_checked: "Check lb (Some u) ctx w = (Inr p, w') \<Longrightarrow> checked_plan lb u False p"
proof -
  assume r: "Check lb (Some u) ctx w = (Inr p, w')"
  then obtain name member release asset w1 w2 where
    "expectedNames (up_command u) (up_goos u) (up_goarch u) = Inr (name, member)"
    "fetchRelease lb u ''releases/latest'' name w1 = (Inr (release, asset), w2)"
    "buildPlan lb u release asset member False w2 = (Inr p, w')"
    by (auto simp: Check_def fetchLatestRelease_def Inr_simps split: if_splits)
  with fetchRelease_ok buildPlan_ok show ?thesis
    unfolding checked_plan_def by metis
qed

lemma CheckVersion_checked:
  "CheckVersion lb (Some u) ctx v w = (Inr p, w') \<Longrightarrow> checked_plan lb u True p \<and> pl_availableVersion p = v"
proof -
  assume r: "CheckVersion lb (Some u) ctx v w = (Inr p, w')"
  then obtain name member release asset w1 w2 where
    n: "expectedNames (up_command u) (up_goos u) (up_goarch u) = Inr (name, member)"
    and f: "fetchReleaseByTag lb u v name w1 = (Inr (release, asset), w2)"
    and b: "buildPlan lb u release asset member True w2 = (Inr p, w')"
    by (auto simp: CheckVersion_def Inr_simps split: if_splits)
  from buildPlan_ok [OF b] have "pl_availableVersion p = rel_Version release"
    by (auto simp: plan_of_def)
  with n fetchReleaseByTag_ok [OF f] buildPlan_ok [OF b] show ?thesis
    unfolding checked_plan_def by metis
qed

lemma expectedNames_nonempty: "expectedNames c os arch = Inr (name, member) \<Longrightarrow> name \<noteq> []"
  by (auto simp: expectedNames_def split: if_splits)

lemma checked_stable: "checked_plan lb u targeted p \<Longrightarrow> isStableVersion (lb_semver lb) (pl_availableVersion p)"
  using check_release_iff [OF expectedNames_nonempty]
  by (auto simp: checked_plan_def plan_of_def release_of_def)

lemma matches_of:
  "provenance_ok u release asset provenance \<Longrightarrow> up_attestationWorkflow u \<noteq> [] \<Longrightarrow>
   \<exists>r. provenance = Some r \<and> matches r u (plan_of lb u release asset targeted provenance executable hash)"
  by (auto simp: provenance_ok_def matches_def newProvenanceRecord_def plan_of_def)

lemma checked_guards:
  assumes "checked_plan lb u targeted p"
  shows "apply_guards lb (Some u) True (Some p) = Inr (u, p) \<longleftrightarrow>
    pl_updateAvailable p \<or> targeted \<and> up_allowDowngrade u \<and> up_currentStable u"
proof -
  from assms obtain release asset provenance executable hash where
    p: "p = plan_of lb u release asset targeted provenance executable hash"
    and pv: "provenance_ok u release asset provenance"
    by (auto simp: checked_plan_def)
  have st: "isStableVersion (lb_semver lb) (rel_Version release)"
    using checked_stable [OF assms] p by (simp add: plan_of_def)
  have "\<not> (up_attestationWorkflow u \<noteq> []
      \<and> (case pl_provenance p of None \<Rightarrow> True | Some r \<Rightarrow> \<not> matches r u p))"
    using matches_of [OF pv] p by (auto simp: plan_of_def split: option.splits)
  with st show ?thesis
    by (auto simp: apply_guards_def Let_def p plan_of_def update_available_def split: option.splits)
qed

section \<open>Where requests go\<close>

lemma requests_wrap: "preserves (requests_in R) m \<Longrightarrow> preserves (requests_in R) (wrapE f a m)"
  by (rule hoare_wrap_any)

lemma hash_requests: "preserves (requests_in R) (hashExecutable lb p)"
proof -
  have calls: "preserves (requests_in R) (os_open p)" "preserves (requests_in R) (os_stat f)"
    "preserves (requests_in R) (os_content f)" "preserves (requests_in R) (os_close f)"
    "preserves (requests_in R) (syscall (ret ()))" for p f
    unfolding os_open_def os_stat_def os_content_def os_close_def
    by (rule requests_quiet; simp add: ret_def split: option.split)+
  have read: "preserves (requests_in R) (contextReader (syscall (ret ())))"
    unfolding contextReader_def by (rule hoare_then [OF ctx_check_local calls(5)])
  have copy: "hoare (requests_in R) (copyBounded (contextReader (syscall (ret ()))) no_write (file_stream c)
      maxBinaryBytes d) (\<lambda>_. requests_in R) (\<lambda>_. requests_in R)" for c d
    by (rule hoare_weaken [OF copyBounded_rule [where I = "\<lambda>_. requests_in R" and E = "requests_in R"]])
      (auto simp: no_write_def maxBinaryBytes_def intro: read hoare_ret)
  have body: "preserves (requests_in R) (hash_opened lb f)" for f
    unfolding hash_opened_def
    by (rule hoare_bind [OF hoare_wrap_any [OF calls(2)]], rule hoare_if, rule hoare_fail, assumption,
        rule hoare_bind [OF hoare_wrap_any [OF calls(3)]], rule hoare_bind [OF copy], rule hoare_ret)
  show ?thesis
    unfolding hashExecutable_def
    by (rule hoare_bind [OF hoare_wrap_any [OF calls(1)]], rule hoare_finally [OF body]; rule calls(4))
qed

lemma resolve_requests: "preserves (requests_in R) resolveExecutable"
proof -
  have calls: "preserves (requests_in R) executablePath" "preserves (requests_in R) (filepath_abs p)"
    "preserves (requests_in R) (evalSymlinks p)" for p
    unfolding executablePath_def filepath_abs_def evalSymlinks_def
    by (rule requests_quiet; simp add: askE_def split: option.split)+
  show ?thesis
    unfolding resolveExecutable_def
    by (rule hoare_bind [OF hoare_wrap_any [OF calls(1)]], rule hoare_if, rule hoare_fail, assumption,
        rule hoare_bind [OF hoare_wrap_any [OF calls(2)]], rule hoare_wrap_any [OF calls(3)])
qed

lemma buildPlan_requests:
  assumes law: "url_law (lb_url lb)" and R: "\<And>t. R t False"
    and R': "\<And>t. same_api (lb_url lb) u t \<Longrightarrow> R t (has_token u)"
    and v: "\<And>v b req. up_attestationVerifier u = Some v \<Longrightarrow> preserves (requests_in R) (v b req)"
  shows "preserves (requests_in R) (buildPlan lb u rel asset member targeted)"
proof -
  have prov: "preserves (requests_in R) (verify_provenance lb u rel asset)"
  proof (cases "up_attestationVerifier u")
    case None
    then show ?thesis by (auto simp: verify_provenance_def intro: hoare_ret hoare_fail)
  next
    case (Some f)
    from hoare_wrap_any [OF verifyAttestation_requests [of lb R u f, OF law R R' v [OF Some]]]
    have "preserves (requests_in R) (wrapE g a (verifyAttestation lb u f rel asset))" for g a .
    then show ?thesis
      unfolding verify_provenance_def Some option.case
      by (intro hoare_if hoare_ret hoare_bind) auto
  qed
  show ?thesis
    unfolding buildPlan_def
    by (rule hoare_bind [OF prov], rule hoare_bind [OF resolve_requests], rule hoare_if, rule hoare_fail,
        assumption, rule hoare_bind [OF hash_requests], simp only: split_beta,
        rule hoare_then [OF ctx_check_local], rule hoare_ret)
qed

lemma Check_requests:
  assumes law: "url_law (lb_url lb)" and R: "\<And>t. R t False"
    and R': "\<And>t. same_api (lb_url lb) u t \<Longrightarrow> R t (has_token u)"
    and v: "\<And>v b req. up_attestationVerifier u = Some v \<Longrightarrow> preserves (requests_in R) (v b req)"
  shows "preserves (requests_in R) (Check lb (Some u) ctx)"
    and "preserves (requests_in R) (CheckVersion lb (Some u) ctx version)"
proof -
  have failing: "hoare (requests_in R) (fail e) Q (\<lambda>_. requests_in R)" for e and Q :: "'x \<Rightarrow> world \<Rightarrow> bool"
    by (rule hoare_fail)
  have lift: "preserves (requests_in R) (liftE r)" for r :: "gerror + 'x"
    by (rule hoare_lift)
  have fetch: "preserves (requests_in R) (fetchRelease lb u s a)" for s a
    by (rule fetchRelease_requests) (use law R' in auto)
  have tag: "preserves (requests_in R) (fetchReleaseByTag lb u version a)" for a
    unfolding fetchReleaseByTag_def
    by (rule hoare_bind [OF hoare_handle [OF fetch]], rule hoare_if, rule failing, rule failing,
        simp only: split_beta, rule hoare_if, rule failing, rule hoare_ret)
  have build: "preserves (requests_in R) (buildPlan lb u rel asset member targeted)" for rel asset member targeted
    by (rule buildPlan_requests; use law R R' v in blast)
  show "preserves (requests_in R) (Check lb (Some u) ctx)"
    unfolding Check_def option.case fetchLatestRelease_def
    by (rule hoare_if, rule failing, rule hoare_bind [OF lift], simp only: split_beta,
        rule hoare_bind [OF fetch], simp only: split_beta, rule build)
  show "preserves (requests_in R) (CheckVersion lb (Some u) ctx version)"
    unfolding CheckVersion_def option.case
    by (rule hoare_if, rule failing, rule hoare_if, rule failing, rule hoare_bind [OF lift], simp only: split_beta,
        rule hoare_bind [OF tag], simp only: split_beta, rule build)
qed

lemma same_api_host:
  assumes "url_law ul" "\<not> up_allowHTTP u" "same_api ul u t"
  shows "\<exists>base. api_base ul u = Inr base \<and> api_host base \<and> u_scheme t = ''https'' \<and> equal_fold (u_host t) (u_host base)"
  using assms api_base_host [OF assms(1,2)]
  by (auto simp: same_api_def api_host_def split: sum.splits)

text \<open>Where the token may go.\<close>

definition token_safe :: "url_lib \<Rightarrow> updater \<Rightarrow> url \<Rightarrow> bool \<Rightarrow> bool" where
  "token_safe ul u t token \<longleftrightarrow>
     (token \<longrightarrow> u_scheme t = ''https''
        \<and> (\<exists>base. api_base ul u = Inr base \<and> equal_fold (hostname base) ''api.github.com''
             \<and> equal_fold (u_host t) (u_host base)))"

text \<open>C10 Token confinement: during \<^verbatim>\<open>Check\<close> and \<^verbatim>\<open>CheckVersion\<close> the token is sent only over https and only to the host of the
  checked API base URL, which is api.github.com; redirects, assets and bundles never see it.\<close>

theorem check_keeps_token:
  assumes "url_law (lb_url lb)" and "\<not> up_allowHTTP u"
    and "\<And>v b req. up_attestationVerifier u = Some v \<Longrightarrow>
      preserves (requests_in (token_safe (lb_url lb) u)) (v b req)"
    and "requests_in (token_safe (lb_url lb) u) w"
    and "Check lb (Some u) ctx w = (r, w') \<or> CheckVersion lb (Some u) ctx version w = (r, w')"
  shows "requests_in (token_safe (lb_url lb) u) w'"
proof -
  have api: "token_safe (lb_url lb) u t b" if "same_api (lb_url lb) u t" for t b
    using same_api_host [OF assms(1,2) that] by (auto simp: token_safe_def api_host_def)
  have none: "token_safe (lb_url lb) u t False" for t by (simp add: token_safe_def)
  have c: "preserves (requests_in (token_safe (lb_url lb) u)) (Check lb (Some u) ctx)"
    "preserves (requests_in (token_safe (lb_url lb) u)) (CheckVersion lb (Some u) ctx version)"
    by (rule Check_requests; use assms(1,3) none api in blast)+
  from assms(5) show ?thesis
  proof
    assume r: "Check lb (Some u) ctx w = (r, w')"
    show ?thesis
      using hoareD_ok [OF c(1) assms(4)] hoareD_err [OF c(1) assms(4)] r by (cases r) blast+
  next
    assume r: "CheckVersion lb (Some u) ctx version w = (r, w')"
    show ?thesis
      using hoareD_ok [OF c(2) assms(4)] hoareD_err [OF c(2) assms(4)] r by (cases r) blast+
  qed
qed

theorem check_keeps_token_witness:
  "\<exists>r w'. Check sample_libs (Some sample_updater) True (sample_world [answer ''release'']) = (r, w')
     \<and> requests_in (token_safe https_url sample_updater) w'"
proof -
  obtain r w' where run: "Check sample_libs (Some sample_updater) True (sample_world [answer ''release'']) = (r, w')"
    by (cases "Check sample_libs (Some sample_updater) True (sample_world [answer ''release''])")
  have "requests_in (token_safe (lb_url sample_libs) sample_updater) w'"
  proof (rule check_keeps_token)
    show "url_law (lb_url sample_libs)" by (simp add: sample_libs_def https_url_law)
    show "requests_in (token_safe (lb_url sample_libs) sample_updater) (sample_world [answer ''release''])"
      by (simp add: requests_in_def sample_world_def)
    show "\<not> up_allowHTTP sample_updater" by (simp add: sample_updater_def)
    show "preserves (requests_in (token_safe (lb_url sample_libs) sample_updater)) (v b req)"
      if "up_attestationVerifier sample_updater = Some v" for v b req
      using that by (simp add: sample_updater_def)
    show "Check sample_libs (Some sample_updater) True (sample_world [answer ''release'']) = (r, w')
        \<or> CheckVersion sample_libs (Some sample_updater) True [] (sample_world [answer ''release'']) = (r, w')"
      using run by simp
  qed
  with run show ?thesis by (auto simp: sample_libs_def)
qed

text \<open>C9 Fail-closed attestation: with an attestation workflow configured, \<^verbatim>\<open>Check\<close> returns a plan only after the verifier
  accepted a bundle for exactly the plan's archive digest, asset, version and repository, and the plan records it.\<close>

theorem check_attested:
  assumes "Check lb (Some u) ctx w = (Inr p, w')" and "up_attestationWorkflow u \<noteq> []"
  shows "\<exists>v request record. up_attestationVerifier u = Some v \<and> accepted v request
    \<and> ar_DigestSHA256 request = pl_archiveDigest p \<and> ar_AssetName request = pl_assetName p
    \<and> ar_SignerIdentity request = ''https://github.com/'' @ up_owner u @ ''/'' @ up_repository u @ ''/''
        @ up_attestationWorkflow u @ ''@refs/tags/'' @ pl_availableVersion p
    \<and> pl_provenance p = Some record \<and> matches record u p"
proof -
  from Check_checked [OF assms(1)] obtain release asset provenance executable hash where
    p: "p = plan_of lb u release asset False provenance executable hash"
    and pv: "provenance_ok u release asset provenance"
    by (auto simp: checked_plan_def)
  from pv assms(2) obtain v where "up_attestationVerifier u = Some v"
    "accepted v (attestation_request u release asset)"
    by (auto simp: provenance_ok_def)
  moreover have "\<exists>record. pl_provenance p = Some record \<and> matches record u p"
    using matches_of [OF pv assms(2)] p by (auto simp: plan_of_def)
  ultimately show ?thesis
    using p by (auto simp: attestation_request_def plan_of_def intro!: exI [of _ "attestation_request u release asset"])
qed

definition attesting_updater :: updater where
  "attesting_updater = sample_updater
     \<lparr>up_attestationWorkflow := ''.github/workflows/release.yml'', up_attestationVerifier := Some (\<lambda>_ _. ret ())\<rparr>"

theorem check_attested_witness:
  "\<exists>p w' v request. Check sample_libs (Some attesting_updater) True
       (sample_world [answer ''release'', answer ''page'', answer ''bundle'']) = (Inr p, w')
     \<and> up_attestationVerifier attesting_updater = Some v \<and> accepted v request
     \<and> ar_DigestSHA256 request = pl_archiveDigest p"
proof -
  have "case Check sample_libs (Some attesting_updater) True
       (sample_world [answer ''release'', answer ''page'', answer ''bundle'']) of
      (Inr p, w') \<Rightarrow> True | (Inl e, w') \<Rightarrow> False"
    by code_simp
  then obtain p w' where run: "Check sample_libs (Some attesting_updater) True
       (sample_world [answer ''release'', answer ''page'', answer ''bundle'']) = (Inr p, w')"
    by (auto split: prod.splits sum.splits)
  have "up_attestationWorkflow attesting_updater \<noteq> []" by (simp add: attesting_updater_def)
  from run check_attested [OF run this] show ?thesis by blast
qed

end
