(* ===== verification/Sigstore.thy ===== *)
theory Sigstore
  imports Attestation
begin

text \<open>
  The Sigstore verifier (sigstore/sigstore.go). The packages sigstore-go and singleflight are the
  parameters \<open>sigstore_lib\<close> and \<open>singleflight\<close>, with their types as type variables; what the module
  does with them is written out: the identity policy, the checks on the verified statement, and the
  verifier's cache. Many callers share one cache and one \<^verbatim>\<open>singleflight\<close> group, so
  \<^verbatim>\<open>configuredVerifier\<close> is a machine whose steps are the atomic actions of its callers, of the
  goroutines that fetch the trust root, and of the clock; a call of it is one caller's part of a
  history of such steps.
\<close>

definition inTotoStatementV1 :: string where
  "inTotoStatementV1 = ''https://in-toto.io/Statement/v1''"

text \<open>Times are in seconds.\<close>

definition trustedRootHTTPTimeout :: nat where "trustedRootHTTPTimeout = 20"
definition trustedRootCachePeriod :: nat where "trustedRootCachePeriod = 24 * 60 * 60"

section \<open>The library\<close>

record extensions =
  ex_SourceRepositoryURI :: string
  ex_SourceRepositoryOwnerURI :: string

record 'id policy =
  po_algorithm :: string
  po_digest :: bytes
  po_identity :: 'id

record subject =
  su_name :: string
  su_digest :: "(string \<times> string) list"

record statement =
  st_type :: string
  st_predicateType :: string
  st_subject :: "subject list"

datatype verifier_option =
    WithSignedCertificateTimestamps nat
  | WithTransparencyLog nat
  | WithObserverTimestamps nat
  | WithoutStatementPredicate

record ('b, 's, 'i, 'id, 'r, 'v) sigstore_lib =
  sg_UnmarshalJSON :: "bytes \<Rightarrow> gerror + 'b"
  sg_NewSANMatcher :: "string \<Rightarrow> string \<Rightarrow> gerror + 's"
  sg_NewIssuerMatcher :: "string \<Rightarrow> string \<Rightarrow> gerror + 'i"
  sg_NewCertificateIdentity :: "'s \<Rightarrow> 'i \<Rightarrow> extensions \<Rightarrow> gerror + 'id"
  sg_NewVerifier :: "'r \<Rightarrow> verifier_option list \<Rightarrow> gerror + 'v"
  sg_Verify :: "'v \<Rightarrow> 'b \<Rightarrow> 'id policy \<Rightarrow> gerror + statement option"

section \<open>One verification\<close>

definition buildCertificateIdentity ::
  "('b, 's, 'i, 'id, 'r, 'v) sigstore_lib \<Rightarrow> attestationRequest \<Rightarrow> gerror + 'id" where
  "buildCertificateIdentity sg request =
     (case sg_NewSANMatcher sg (ar_SignerIdentity request) [] of
        Inl e \<Rightarrow> Inl e
      | Inr sanMatcher \<Rightarrow>
          (case sg_NewIssuerMatcher sg (ar_Issuer request) [] of
             Inl e \<Rightarrow> Inl e
           | Inr issuerMatcher \<Rightarrow>
               sg_NewCertificateIdentity sg sanMatcher issuerMatcher
                 \<lparr>ex_SourceRepositoryURI = ar_SourceRepository request,
                  ex_SourceRepositoryOwnerURI = ar_SourceOwner request\<rparr>))"

text \<open>A missing key of a Go map reads as the empty string.\<close>

definition digest_of :: "subject \<Rightarrow> string" where
  "digest_of s = (case map_of (su_digest s) ''sha256'' of None \<Rightarrow> [] | Some d \<Rightarrow> d)"

definition check_statement :: "attestationRequest \<Rightarrow> statement option \<Rightarrow> gerror option" where
  "check_statement request result =
     (case result of
        None \<Rightarrow> Some (ErrorString ''verified attestation is not an in-toto Statement v1'')
      | Some st \<Rightarrow>
          if st_type st \<noteq> inTotoStatementV1
          then Some (ErrorString ''verified attestation is not an in-toto Statement v1'')
          else if st_predicateType st \<noteq> ar_PredicateType request
          then Some (Errorf ''verified attestation has predicate type %q'' [AStr (st_predicateType st)])
          else if list_ex (\<lambda>s. su_name s = ar_AssetName request
                    \<and> digest_of s = hex_encode (ar_DigestSHA256 request)) (st_subject st)
          then None
          else Some (Errorf ''verified attestation has no exact subject named %q'' [AStr (ar_AssetName request)]))"

section \<open>Fetching the trust root\<close>

text \<open>
  The options of the TUF client, which rejects every redirect. \<^verbatim>\<open>Do\<close> gives each request the earlier of
  its own deadline and the client's; the context of a response with a body is cancelled when the
  body is closed, any other at once. The second component says whether \<^verbatim>\<open>cancel\<close> was called.
\<close>

record tuf_options =
  to_disableLocalCache :: bool
  to_deadline :: nat
  to_timeout :: nat
  to_checkRedirect :: "nat \<Rightarrow> url \<Rightarrow> gerror option"

definition fetchPublicTrustedRoot :: "(tuf_options \<Rightarrow> gerror + 'r) \<Rightarrow> nat \<Rightarrow> gerror + 'r" where
  "fetchPublicTrustedRoot fetchTrustedRootWithOptions now =
     fetchTrustedRootWithOptions
       \<lparr>to_disableLocalCache = True, to_deadline = now + trustedRootHTTPTimeout,
        to_timeout = trustedRootHTTPTimeout,
        to_checkRedirect = (\<lambda>via target. Some (ErrorString ''sigstore TUF redirect rejected''))\<rparr>"

definition with_deadline :: "nat option \<Rightarrow> nat \<Rightarrow> nat" where
  "with_deadline parent d = (case parent of None \<Rightarrow> d | Some p \<Rightarrow> min p d)"

datatype 'c body = CancelReadCloser 'c

definition deadlineHTTPClient_Do ::
  "nat \<Rightarrow> (nat \<Rightarrow> 'c option option \<times> gerror option) \<Rightarrow> nat option \<Rightarrow>
   ('c body option option \<times> gerror option) \<times> bool" where
  "deadlineHTTPClient_Do deadline roundTrip parent =
     (case roundTrip (with_deadline parent deadline) of
        (None, err) \<Rightarrow> ((None, err), True)
      | (Some None, err) \<Rightarrow> ((Some None, err), True)
      | (Some (Some body), err) \<Rightarrow> ((Some (Some (CancelReadCloser body)), err), False))"

text \<open>\<^verbatim>\<open>Close\<close> cancels the context, then closes the body it wraps.\<close>

fun cancelReadCloser_Close :: "('c \<Rightarrow> gerror option) \<Rightarrow> 'c body \<Rightarrow> bool \<times> gerror option" where
  "cancelReadCloser_Close close (CancelReadCloser body) = (True, close body)"

text \<open>No exchange outlives the client's deadline, and its context is cancelled at once or by closing the body.\<close>

lemma exchange_released:
  assumes "deadlineHTTPClient_Do deadline roundTrip parent = ((response, err), cancelled)"
  shows "(\<exists>d \<le> deadline. roundTrip d = (map_option (map_option (\<lambda>b. case b of CancelReadCloser c \<Rightarrow> c)) response, err))
    \<and> (cancelled \<longleftrightarrow> response = None \<or> response = Some None)
    \<and> (\<forall>b. response = Some (Some b) \<longrightarrow> fst (cancelReadCloser_Close close b))"
proof -
  have "with_deadline parent deadline \<le> deadline" by (simp add: with_deadline_def split: option.split)
  with assms show ?thesis
    by (auto simp: deadlineHTTPClient_Do_def split: prod.splits option.splits)
qed

section \<open>The cache and the group\<close>

text \<open>
  \<^verbatim>\<open>singleflight.Group\<close>: \<^verbatim>\<open>DoChan\<close> for a key and a new channel says whether it starts the function in
  a goroutine, and \<open>sf_finish\<close> is what the group does when the function has returned: the channels
  that receive the result, and the group without the call. The law is the documented behaviour: at
  most one execution is in flight for a key, a duplicate waits for it, and every channel receives
  its result; \<open>members\<close> are the channels of the call in flight.
\<close>

record 'g singleflight =
  sf_new :: 'g
  sf_DoChan :: "'g \<Rightarrow> string \<Rightarrow> nat \<Rightarrow> bool \<times> 'g"
  sf_finish :: "'g \<Rightarrow> string \<Rightarrow> nat list \<times> 'g"

definition singleflight_law :: "'g singleflight \<Rightarrow> ('g \<Rightarrow> string \<Rightarrow> nat list option) \<Rightarrow> bool" where
  "singleflight_law sf members \<longleftrightarrow>
     (\<forall>k. members (sf_new sf) k = None)
     \<and> (\<forall>g k p. fst (sf_DoChan sf g k p) = (members g k = None)
          \<and> members (snd (sf_DoChan sf g k p)) k
            = Some (case members g k of None \<Rightarrow> [p] | Some ps \<Rightarrow> ps @ [p]))
     \<and> (\<forall>g k ps. members g k = Some ps \<longrightarrow>
          fst (sf_finish sf g k) = ps \<and> members (snd (sf_finish sf g k)) k = None)"

lemma flight_new: "singleflight_law sf members \<Longrightarrow> members (sf_new sf) k = None"
  by (simp add: singleflight_law_def)

lemma flight_DoChan:
  assumes "singleflight_law sf members" "sf_DoChan sf g k p = (starts, g')"
  shows "starts = (members g k = None)"
    "members g' k = Some (case members g k of None \<Rightarrow> [p] | Some ps \<Rightarrow> ps @ [p])"
proof -
  from assms(1) have "fst (sf_DoChan sf g k p) = (members g k = None)"
    "members (snd (sf_DoChan sf g k p)) k = Some (case members g k of None \<Rightarrow> [p] | Some ps \<Rightarrow> ps @ [p])"
    unfolding singleflight_law_def by (simp_all (no_asm_simp))
  then show "starts = (members g k = None)"
    "members g' k = Some (case members g k of None \<Rightarrow> [p] | Some ps \<Rightarrow> ps @ [p])"
    by (simp_all add: assms(2))
qed

lemma flight_finish:
  assumes "singleflight_law sf members" "members g k = Some ps" "sf_finish sf g k = (channels, g')"
  shows "channels = ps" "members g' k = None"
proof -
  from assms(1) have "members g k = Some ps \<longrightarrow> fst (sf_finish sf g k) = ps \<and> members (snd (sf_finish sf g k)) k = None"
    unfolding singleflight_law_def by simp
  with assms(2,3) show "channels = ps" "members g' k = None" by simp_all
qed

text \<open>
  A caller has not asked yet, has missed the cache, waits for its channel, has a value in its
  channel, or has returned. A goroutine that \<^verbatim>\<open>DoChan\<close> started has just begun, is fetching, has
  built a verifier that is not stored yet, or has returned from the function.
\<close>

datatype 'v caller =
    Idle
  | Missed
  | Waiting
  | Delivered "gerror + 'v"
  | Returned "gerror + 'v"

datatype 'v routine =
    Begun
  | Fetching
  | Built 'v
  | Handing "gerror + 'v"

text \<open>The log remembers when fetches began and when verifiers were stored; the program does not read it.\<close>

datatype log_entry = FetchAt nat | StoreAt nat

record ('v, 'g) shared =
  g_now :: nat
  g_cached :: "('v \<times> nat) option" \<comment> \<open>\<^verbatim>\<open>verifier\<close> and \<^verbatim>\<open>verifierExpires\<close>\<close>
  g_initialize :: 'g
  g_routines :: "'v routine list" \<comment> \<open>the goroutines that run\<close>
  g_callers :: "nat \<Rightarrow> 'v caller"
  g_log :: "log_entry list"

definition cachedVerifier :: "('v, 'g) shared \<Rightarrow> nat \<Rightarrow> 'v option" where
  "cachedVerifier g now =
     (case g_cached g of
        None \<Rightarrow> None
      | Some (v, expires) \<Rightarrow> if \<not> now < expires then None else Some v)"

text \<open>The events: of the clock, of a caller, and of the goroutine at a position in the list.\<close>

datatype 'r event =
    Tick nat
  | Ask nat
  | DoChan nat
  | Recheck nat
  | Fetched nat "gerror + 'r"
  | Store nat
  | Hand nat
  | Receive nat
  | Cancel nat gerror

definition root_options :: "verifier_option list" where
  "root_options =
     [WithSignedCertificateTimestamps 1, WithTransparencyLog 1, WithObserverTimestamps 1,
      WithoutStatementPredicate]"

text \<open>What the goroutine makes of the outcome of the fetch.\<close>

definition after_fetch ::
  "('b, 's, 'i, 'id, 'r, 'v) sigstore_lib \<Rightarrow> gerror + 'r \<Rightarrow> 'v routine" where
  "after_fetch sg outcome =
     (case outcome of
        Inl e \<Rightarrow> Handing (Inl (Wrapf ''initialize public Sigstore verifier: %w'' [] e))
      | Inr trustedRoot \<Rightarrow>
          (case sg_NewVerifier sg trustedRoot root_options of
             Inl e \<Rightarrow> Handing (Inl (Wrapf ''initialize public Sigstore verifier: %w'' [] e))
           | Inr configured \<Rightarrow> Built configured))"

definition set_caller :: "nat \<Rightarrow> 'v caller \<Rightarrow> ('v, 'g) shared \<Rightarrow> ('v, 'g) shared" where
  "set_caller p c g = g\<lparr>g_callers := (g_callers g)(p := c)\<rparr>"

definition routine_at :: "('v, 'g) shared \<Rightarrow> nat \<Rightarrow> 'v routine option" where
  "routine_at g i = (if i < length (g_routines g) then Some (g_routines g ! i) else None)"

definition set_routine :: "nat \<Rightarrow> 'v routine \<Rightarrow> ('v, 'g) shared \<Rightarrow> ('v, 'g) shared" where
  "set_routine i r g = g\<lparr>g_routines := (g_routines g)[i := r]\<rparr>"

text \<open>
  The atomic actions of \<^verbatim>\<open>configuredVerifier\<close>; \<open>None\<close> when an action is not possible. The channels
  are buffered, so a caller that gave up does not hold the goroutine up.
\<close>

fun configured_step ::
  "('b, 's, 'i, 'id, 'r, 'v) sigstore_lib \<Rightarrow> 'g singleflight \<Rightarrow> 'r event \<Rightarrow> ('v, 'g) shared \<Rightarrow>
   ('v, 'g) shared option" where
  "configured_step sg sf (Tick d) g = Some (g\<lparr>g_now := g_now g + d\<rparr>)"
| "configured_step sg sf (Ask p) g =
     (case g_callers g p of
        Idle \<Rightarrow>
          Some (set_caller p
            (case cachedVerifier g (g_now g) of Some v \<Rightarrow> Returned (Inr v) | None \<Rightarrow> Missed) g)
      | _ \<Rightarrow> None)"
| "configured_step sg sf (DoChan p) g =
     (case g_callers g p of
        Missed \<Rightarrow>
          (case sf_DoChan sf (g_initialize g) ''public-root'' p of
             (starts, flight) \<Rightarrow>
               Some (set_caller p Waiting
                 (g\<lparr>g_initialize := flight,
                    g_routines := g_routines g @ (if starts then [Begun] else [])\<rparr>)))
      | _ \<Rightarrow> None)"
| "configured_step sg sf (Recheck i) g =
     (case routine_at g i of
        Some Begun \<Rightarrow>
          (case cachedVerifier g (g_now g) of
             Some v \<Rightarrow> Some (set_routine i (Handing (Inr v)) g)
           | None \<Rightarrow> Some (set_routine i Fetching (g\<lparr>g_log := FetchAt (g_now g) # g_log g\<rparr>)))
      | _ \<Rightarrow> None)"
| "configured_step sg sf (Fetched i outcome) g =
     (case routine_at g i of
        Some Fetching \<Rightarrow> Some (set_routine i (after_fetch sg outcome) g)
      | _ \<Rightarrow> None)"
| "configured_step sg sf (Store i) g =
     (case routine_at g i of
        Some (Built v) \<Rightarrow>
          Some (set_routine i (Handing (Inr v))
            (g\<lparr>g_cached := Some (v, g_now g + trustedRootCachePeriod),
               g_log := StoreAt (g_now g) # g_log g\<rparr>))
      | _ \<Rightarrow> None)"
| "configured_step sg sf (Hand i) g =
     (case routine_at g i of
        Some (Handing outcome) \<Rightarrow>
          (case sf_finish sf (g_initialize g) ''public-root'' of
             (channels, flight) \<Rightarrow>
               Some (g\<lparr>g_initialize := flight,
                       g_routines := take i (g_routines g) @ drop (Suc i) (g_routines g),
                       g_callers := (\<lambda>p. if p \<in> set channels \<and> g_callers g p = Waiting
                         then Delivered outcome else g_callers g p)\<rparr>))
      | _ \<Rightarrow> None)"
| "configured_step sg sf (Receive p) g =
     (case g_callers g p of
        Delivered outcome \<Rightarrow> Some (set_caller p (Returned outcome) g)
      | _ \<Rightarrow> None)"
| "configured_step sg sf (Cancel p ctxErr) g =
     (case g_callers g p of
        Waiting \<Rightarrow> Some (set_caller p (Returned (Inl ctxErr)) g)
      | Delivered outcome \<Rightarrow> Some (set_caller p (Returned (Inl ctxErr)) g)
      | _ \<Rightarrow> None)"

text \<open>\<^verbatim>\<open>New\<close>: nothing cached, nobody waiting.\<close>

definition new_shared :: "'g singleflight \<Rightarrow> nat \<Rightarrow> ('v, 'g) shared" where
  "new_shared sf now =
     \<lparr>g_now = now, g_cached = None, g_initialize = sf_new sf, g_routines = [],
      g_callers = (\<lambda>_. Idle), g_log = []\<rparr>"

fun run_events ::
  "('b, 's, 'i, 'id, 'r, 'v) sigstore_lib \<Rightarrow> 'g singleflight \<Rightarrow> 'r event list \<Rightarrow> ('v, 'g) shared \<Rightarrow>
   ('v, 'g) shared option" where
  "run_events sg sf [] g = Some g"
| "run_events sg sf (e # es) g =
     (case configured_step sg sf e g of None \<Rightarrow> None | Some g' \<Rightarrow> run_events sg sf es g')"

text \<open>The states of a verifier, each with the history of the events that led to it.\<close>

inductive reachable ::
  "('b, 's, 'i, 'id, 'r, 'v) sigstore_lib \<Rightarrow> 'g singleflight \<Rightarrow> 'r event list \<Rightarrow> ('v, 'g) shared \<Rightarrow> bool"
  for sg sf where
  start: "reachable sg sf [] (new_shared sf now)"
| step: "reachable sg sf es g \<Longrightarrow> configured_step sg sf e g = Some g' \<Longrightarrow> reachable sg sf (es @ [e]) g'"

inductive_cases reachableE: "reachable sg sf es g"

lemma reachable_run:
  "reachable sg sf es g \<Longrightarrow> run_events sg sf es' g = Some g' \<Longrightarrow> reachable sg sf (es @ es') g'"
proof (induction es' arbitrary: es g)
  case (Cons e es')
  from Cons.prems(2) obtain g1 where g1: "configured_step sg sf e g = Some g1" "run_events sg sf es' g1 = Some g'"
    by (auto split: option.splits)
  from Cons.IH [OF reachable.step [OF Cons.prems(1) g1(1)] g1(2)] show ?case by simp
qed simp

text \<open>
  A call of \<^verbatim>\<open>configuredVerifier\<close>. The other callers, the goroutines and the clock belong to the
  environment, which gives the history of the verifier up to the return of this call: the time of
  \<^verbatim>\<open>New\<close>, the events, and which caller this call is. A call that has not been handed anything ends
  with its context.
\<close>

type_synonym 'r history = "world \<Rightarrow> nat \<times> 'r event list \<times> nat"

definition configuredVerifier ::
  "('b, 's, 'i, 'id, 'r, 'v) sigstore_lib \<Rightarrow> 'g singleflight \<Rightarrow> 'r history \<Rightarrow> 'v io" where
  "configuredVerifier sg sf history w =
     (case history w of (start, es, p) \<Rightarrow>
        (case run_events sg sf es (new_shared sf start) of
           Some g \<Rightarrow>
             (case g_callers g p of
                Returned outcome \<Rightarrow> outcome
              | _ \<Rightarrow> Inl (case ctx_err w of Some c \<Rightarrow> c | None \<Rightarrow> CtxCanceled))
         | None \<Rightarrow> Inl (case ctx_err w of Some c \<Rightarrow> c | None \<Rightarrow> CtxCanceled),
         w))"

definition VerifyAttestation ::
  "('b, 's, 'i, 'id, 'r, 'v) sigstore_lib \<Rightarrow> 'g singleflight \<Rightarrow> 'r history \<Rightarrow> verifier" where
  "VerifyAttestation sg sf history bundleJSON request =
     thenE ctx_check
       (bindE (wrapE ''parse Sigstore bundle: %w'' [] (liftE (sg_UnmarshalJSON sg bundleJSON)))
         (\<lambda>signedBundle.
            bindE (wrapE ''build attestation identity policy: %w'' [] (liftE (buildCertificateIdentity sg request)))
              (\<lambda>identity.
                 bindE (configuredVerifier sg sf history)
                   (\<lambda>v. bindE (wrapE ''verify Sigstore bundle: %w'' []
                       (liftE (sg_Verify sg v signedBundle
                         \<lparr>po_algorithm = ''sha256'', po_digest = ar_DigestSHA256 request, po_identity = identity\<rparr>)))
                     (\<lambda>result. case check_statement request result of
                        Some e \<Rightarrow> fail e | None \<Rightarrow> ret ())))))"

section \<open>The invariant of the cache\<close>

text \<open>A verifier that was built, with the options of the program, from a root fetched in the history.\<close>

definition sourced ::
  "('b, 's, 'i, 'id, 'r, 'v) sigstore_lib \<Rightarrow> 'r event list \<Rightarrow> 'v \<Rightarrow> bool" where
  "sourced sg es v \<longleftrightarrow>
     (\<exists>i trustedRoot. Fetched i (Inr trustedRoot) \<in> set es \<and> sg_NewVerifier sg trustedRoot root_options = Inr v)"

lemma sourced_more: "sourced sg es v \<Longrightarrow> sourced sg (es @ es') v"
  by (auto simp: sourced_def)

text \<open>\<open>spaced\<close>: every fetch in the log begins a whole period after each store before it.\<close>

fun spaced :: "log_entry list \<Rightarrow> bool" where
  "spaced [] = True"
| "spaced (FetchAt t # es) =
     (list_all (\<lambda>e. case e of StoreAt s \<Rightarrow> s + trustedRootCachePeriod \<le> t | FetchAt s \<Rightarrow> True) es \<and> spaced es)"
| "spaced (StoreAt t # es) = spaced es"

definition routine_ok ::
  "('b, 's, 'i, 'id, 'r, 'v) sigstore_lib \<Rightarrow> 'r event list \<Rightarrow> 'v routine \<Rightarrow> bool" where
  "routine_ok sg es r \<longleftrightarrow> (\<forall>v. r = Built v \<or> r = Handing (Inr v) \<longrightarrow> sourced sg es v)"

definition caller_ok ::
  "('b, 's, 'i, 'id, 'r, 'v) sigstore_lib \<Rightarrow> 'r event list \<Rightarrow> 'v caller \<Rightarrow> bool" where
  "caller_ok sg es c \<longleftrightarrow> (\<forall>v. c = Delivered (Inr v) \<or> c = Returned (Inr v) \<longrightarrow> sourced sg es v)"

definition stored_ok :: "('v, 'g) shared \<Rightarrow> bool" where
  "stored_ok g \<longleftrightarrow>
     (\<forall>s. StoreAt s \<in> set (g_log g) \<longrightarrow>
        (\<exists>v t. g_cached g = Some (v, t) \<and> s + trustedRootCachePeriod \<le> t \<and> s \<le> g_now g))
     \<and> (\<forall>v t. g_cached g = Some (v, t) \<longrightarrow> t \<le> g_now g + trustedRootCachePeriod)
     \<and> spaced (g_log g)"

definition shared_ok ::
  "('b, 's, 'i, 'id, 'r, 'v) sigstore_lib \<Rightarrow> 'r event list \<Rightarrow> ('v, 'g) shared \<Rightarrow> bool" where
  "shared_ok sg es g \<longleftrightarrow>
     (\<forall>v t. g_cached g = Some (v, t) \<longrightarrow> sourced sg es v)
     \<and> (\<forall>r \<in> set (g_routines g). routine_ok sg es r) \<and> (\<forall>p. caller_ok sg es (g_callers g p))"

lemma routine_at_mem: "routine_at g i = Some r \<Longrightarrow> r \<in> set (g_routines g)"
  by (auto simp: routine_at_def split: if_splits)

lemma cachedVerifier_Some:
  "cachedVerifier g now = Some v \<Longrightarrow> \<exists>t. g_cached g = Some (v, t) \<and> now < t"
  by (auto simp: cachedVerifier_def split: option.splits if_splits)

lemma cachedVerifier_None:
  "cachedVerifier g now = None \<Longrightarrow> g_cached g = Some (v, t) \<Longrightarrow> t \<le> now"
  by (auto simp: cachedVerifier_def split: if_splits)

lemma shared_more: "shared_ok sg es g \<Longrightarrow> shared_ok sg (es @ es') g"
  unfolding shared_ok_def routine_ok_def caller_ok_def using sourced_more by metis

lemma shared_set_caller:
  "shared_ok sg es g \<Longrightarrow> caller_ok sg es c \<Longrightarrow> shared_ok sg es (set_caller p c g)"
  by (simp add: shared_ok_def set_caller_def)

lemma shared_set_routine:
  "shared_ok sg es g \<Longrightarrow> routine_ok sg es r \<Longrightarrow> shared_ok sg es (set_routine i r g)"
  by (auto simp: shared_ok_def set_routine_def dest!: set_update_subset_insert [THEN subsetD])

lemma after_fetch_ok: "routine_ok sg (es @ [Fetched i outcome]) (after_fetch sg outcome)"
  by (auto simp: routine_ok_def after_fetch_def sourced_def split: sum.splits)

lemma cached_ok: "shared_ok sg es g \<Longrightarrow> cachedVerifier g now = Some v \<Longrightarrow> sourced sg es v"
  using cachedVerifier_Some by (fastforce simp: shared_ok_def)

lemma shared_step:
  assumes "shared_ok sg es g" "configured_step sg sf e g = Some g'"
  shows "shared_ok sg (es @ [e]) g'"
proof -
  note more = shared_more [OF assms(1)]
  have plain: "caller_ok sg x Missed" "caller_ok sg x Waiting" "caller_ok sg x (Returned (Inl c))"
    "routine_ok sg x Begun" "routine_ok sg x Fetching" for c x
    by (simp_all add: caller_ok_def routine_ok_def)
  have cached: "caller_ok sg (es @ x) (Returned (Inr v)) \<and> routine_ok sg (es @ x) (Handing (Inr v))"
    if "cachedVerifier g (g_now g) = Some v" for v x
    using cached_ok [OF more that] by (simp add: caller_ok_def routine_ok_def)
  have at: "routine_ok sg (es @ [e]) r" if "routine_at g i = Some r" for i r
    using more [of "[e]"] routine_at_mem [OF that] by (simp add: shared_ok_def)
  have callers: "caller_ok sg (es @ [e]) (g_callers g p)" for p
    using more [of "[e]"] by (simp add: shared_ok_def)
  show ?thesis
  proof (cases e)
    case (Tick d)
    with assms(2) more [of "[e]"] show ?thesis by (auto simp: shared_ok_def)
  next
    case (Ask p)
    with assms(2) show ?thesis
      by (auto intro!: shared_set_caller [OF more] simp: plain cached split: caller.splits option.split)
  next
    case (DoChan p)
    obtain starts flight where d: "sf_DoChan sf (g_initialize g) ''public-root'' p = (starts, flight)"
      by (cases "sf_DoChan sf (g_initialize g) ''public-root'' p")
    have "shared_ok sg (es @ [e]) (g\<lparr>g_initialize := flight,
        g_routines := g_routines g @ (if starts then [Begun] else [])\<rparr>)"
      using more [of "[e]"] plain(4) by (auto simp: shared_ok_def)
    with assms(2) DoChan d show ?thesis
      by (auto intro!: shared_set_caller simp: plain split: caller.splits)
  next
    case (Recheck i)
    have "shared_ok sg (es @ [e]) (g\<lparr>g_log := l\<rparr>)" for l
      using more [of "[e]"] by (simp add: shared_ok_def)
    with assms(2) Recheck show ?thesis
      by (auto intro!: shared_set_routine more simp: plain cached split: option.splits routine.splits)
  next
    case (Fetched i outcome)
    with assms(2) after_fetch_ok [of sg es i outcome] show ?thesis
      by (auto intro!: shared_set_routine more split: option.splits routine.splits)
  next
    case (Store i)
    then obtain v where v: "routine_at g i = Some (Built v)"
      using assms(2) by (auto split: option.splits routine.splits)
    with at have sv: "sourced sg (es @ [e]) v" by (auto simp: routine_ok_def)
    then have "shared_ok sg (es @ [e]) (g\<lparr>g_cached := Some (v, t), g_log := l\<rparr>)" for t l
      using more [of "[e]"] by (simp add: shared_ok_def)
    moreover have "routine_ok sg (es @ [e]) (Handing (Inr v))" using sv by (simp add: routine_ok_def)
    ultimately show ?thesis
      using assms(2) Store v by (auto intro!: shared_set_routine)
  next
    case (Hand i)
    then obtain outcome where o: "routine_at g i = Some (Handing outcome)"
      using assms(2) by (auto split: option.splits routine.splits)
    obtain channels flight where f: "sf_finish sf (g_initialize g) ''public-root'' = (channels, flight)"
      by (cases "sf_finish sf (g_initialize g) ''public-root''")
    have "caller_ok sg (es @ [e]) (Delivered outcome)"
      using at [OF o] by (simp add: routine_ok_def caller_ok_def)
    moreover have "routine_ok sg (es @ [e]) r"
      if "r \<in> set (take i (g_routines g) @ drop (Suc i) (g_routines g))" for r
      using that more [of "[e]"] set_take_subset set_drop_subset by (fastforce simp: shared_ok_def)
    ultimately show ?thesis
      using assms(2) Hand o f more [of "[e]"] by (auto simp: shared_ok_def)
  next
    case (Receive p)
    then obtain outcome where d: "g_callers g p = Delivered outcome" "g' = set_caller p (Returned outcome) g"
      using assms(2) by (auto split: caller.splits)
    have "caller_ok sg (es @ [e]) (Returned outcome)"
      using callers [of p] d(1) by (simp add: caller_ok_def)
    with d(2) more [of "[e]"] show ?thesis by (auto intro: shared_set_caller)
  next
    case (Cancel p c)
    with assms(2) show ?thesis
      by (auto intro!: shared_set_caller [OF more] simp: plain split: caller.splits)
  qed
qed

lemma stored_updates [simp]:
  "stored_ok (set_caller p c g) = stored_ok g" "stored_ok (set_routine i r g) = stored_ok g"
  "stored_ok (g\<lparr>g_initialize := x, g_routines := rs\<rparr>) = stored_ok g"
  "stored_ok (g\<lparr>g_initialize := x, g_routines := rs, g_callers := f\<rparr>) = stored_ok g"
  by (simp_all add: stored_ok_def set_caller_def set_routine_def)

lemma stored_fetch:
  assumes "stored_ok g" "cachedVerifier g (g_now g) = None"
  shows "stored_ok (g\<lparr>g_log := FetchAt (g_now g) # g_log g\<rparr>)"
proof -
  have "case e of StoreAt s \<Rightarrow> s + trustedRootCachePeriod \<le> g_now g | FetchAt s \<Rightarrow> True"
    if "e \<in> set (g_log g)" for e
  proof (cases e)
    case (StoreAt s)
    with that assms(1) obtain v t where "g_cached g = Some (v, t)" "s + trustedRootCachePeriod \<le> t"
      unfolding stored_ok_def by blast
    with cachedVerifier_None [OF assms(2)] StoreAt show ?thesis by fastforce
  qed simp
  with assms(1) show ?thesis by (simp add: stored_ok_def list_all_iff)
qed

lemma stored_store:
  assumes "stored_ok g"
  shows "stored_ok (g\<lparr>g_cached := Some (v, g_now g + trustedRootCachePeriod),
    g_log := StoreAt (g_now g) # g_log g\<rparr>)"
proof -
  have "s \<le> g_now g" if "StoreAt s \<in> set (g_log g)" for s
    using assms that unfolding stored_ok_def by blast
  with assms show ?thesis by (auto simp: stored_ok_def)
qed

lemma stored_step:
  assumes "stored_ok g" "configured_step sg sf e g = Some g'"
  shows "stored_ok g'"
proof (cases e)
  case (Tick d)
  have "stored_ok (g\<lparr>g_now := g_now g + d\<rparr>)"
    using assms(1) unfolding stored_ok_def by (fastforce intro: trans_le_add1)
  with assms(2) Tick show ?thesis by simp
next
  case (Recheck i)
  with assms stored_fetch [OF assms(1)] show ?thesis by (auto split: option.splits routine.splits)
next
  case (Store i)
  with assms stored_store [OF assms(1)] show ?thesis by (auto split: option.splits routine.splits)
qed (use assms in \<open>auto split: option.splits routine.splits caller.splits prod.splits\<close>)

text \<open>With a group that keeps its promise at most one goroutine runs, and it serves every waiting caller.\<close>

definition single ::
  "('g \<Rightarrow> string \<Rightarrow> nat list option) \<Rightarrow> ('v, 'g) shared \<Rightarrow> bool" where
  "single members g \<longleftrightarrow>
     (case members (g_initialize g) ''public-root'' of
        None \<Rightarrow> g_routines g = [] \<and> (\<forall>p. g_callers g p \<noteq> Waiting)
      | Some ps \<Rightarrow> length (g_routines g) = 1 \<and> (\<forall>p. g_callers g p = Waiting \<longrightarrow> p \<in> set ps))"

lemma single_waiting:
  "single members g \<Longrightarrow> g_callers g p = Waiting \<Longrightarrow>
   \<exists>ps r. members (g_initialize g) ''public-root'' = Some ps \<and> g_routines g = [r]
     \<and> (\<forall>q. g_callers g q = Waiting \<longrightarrow> q \<in> set ps)"
  by (auto simp: single_def length_Suc_conv split: option.splits)

lemma single_updates:
  "single members g \<Longrightarrow> single members (set_routine i r g)"
  "single members g \<Longrightarrow> c \<noteq> Waiting \<Longrightarrow> single members (set_caller p c g)"
  "single members (g\<lparr>g_now := t\<rparr>) = single members g" "single members (g\<lparr>g_log := l\<rparr>) = single members g"
  "single members (g\<lparr>g_cached := x\<rparr>) = single members g"
  by (auto simp: single_def set_routine_def set_caller_def split: option.splits)

lemma single_step:
  assumes law: "singleflight_law sf members" and ok: "single members g"
    and step: "configured_step sg sf e g = Some g'"
  shows "single members g'"
proof (cases e)
  case (DoChan p)
  obtain starts flight where d: "sf_DoChan sf (g_initialize g) ''public-root'' p = (starts, flight)"
    by (cases "sf_DoChan sf (g_initialize g) ''public-root'' p")
  note joined = flight_DoChan [OF law d]
  then show ?thesis
    using ok step DoChan d
    by (cases "members (g_initialize g) ''public-root''")
      (auto simp: single_def set_caller_def split: caller.splits)
next
  case (Hand i)
  then obtain outcome where o: "routine_at g i = Some (Handing outcome)"
    using step by (auto split: option.splits routine.splits)
  then have i: "i < length (g_routines g)" by (simp add: routine_at_def split: if_splits)
  with ok obtain ps where ps: "members (g_initialize g) ''public-root'' = Some ps" "length (g_routines g) = 1"
    "\<forall>p. g_callers g p = Waiting \<longrightarrow> p \<in> set ps"
    by (auto simp: single_def split: option.splits)
  obtain channels flight where f: "sf_finish sf (g_initialize g) ''public-root'' = (channels, flight)"
    by (cases "sf_finish sf (g_initialize g) ''public-root''")
  note left = flight_finish [OF law ps(1) f]
  with ps i step Hand o f show ?thesis
    by (auto simp: single_def)
qed (use ok step in \<open>auto intro!: single_updates simp: single_updates split: option.splits routine.splits caller.splits\<close>)

lemma reachable_ok: "reachable sg sf es g \<Longrightarrow> shared_ok sg es g \<and> stored_ok g"
proof (induction rule: reachable.induct)
  case (start now)
  show ?case by (simp add: shared_ok_def stored_ok_def caller_ok_def new_shared_def)
next
  case (step es g e g')
  then show ?case using shared_step stored_step by blast
qed

lemma reachable_single: "reachable sg sf es g \<Longrightarrow> singleflight_law sf members \<Longrightarrow> single members g"
proof (induction rule: reachable.induct)
  case (start now)
  then show ?case by (simp add: single_def new_shared_def singleflight_law_def)
next
  case (step es g e g')
  then show ?case using single_step by blast
qed

section \<open>A concrete library, for the witnesses\<close>

definition sample_sigstore :: "(bytes, string, string, string, nat, nat) sigstore_lib" where
  "sample_sigstore =
     \<lparr>sg_UnmarshalJSON = Inr, sg_NewSANMatcher = (\<lambda>value rx. Inr value),
      sg_NewIssuerMatcher = (\<lambda>value rx. Inr value), sg_NewCertificateIdentity = (\<lambda>san iss ex. Inr san),
      sg_NewVerifier = (\<lambda>r opts. Inr r),
      sg_Verify = (\<lambda>v b po. Inr (Some
        \<lparr>st_type = ''https://in-toto.io/Statement/v1'', st_predicateType = ''https://slsa.dev/provenance/v1'',
         st_subject = [\<lparr>su_name = ''tool_linux_amd64.tar.gz'', su_digest = [(''sha256'', hex_encode (po_digest po))]\<rparr>]\<rparr>))\<rparr>"

text \<open>A group as a map from keys to the channels that wait.\<close>

definition sample_flight :: "(string \<Rightarrow> nat list option) singleflight" where
  "sample_flight =
     \<lparr>sf_new = (\<lambda>_. None),
      sf_DoChan = (\<lambda>g k p. case g k of
          None \<Rightarrow> (True, g(k := Some [p])) | Some ps \<Rightarrow> (False, g(k := Some (ps @ [p])))),
      sf_finish = (\<lambda>g k. case g k of None \<Rightarrow> ([], g) | Some ps \<Rightarrow> (ps, g(k := None)))\<rparr>"

lemma sample_flight_law: "singleflight_law sample_flight (\<lambda>g k. g k)"
  by (auto simp: singleflight_law_def sample_flight_def split: option.split)

section \<open>Properties of the verifier\<close>

text \<open>C26 Single flight: with a group that keeps singleflight's promise at most one fetch of the trust root runs at a time; a
  fetch begins only when no verifier is cached or the cached one has expired, so after a verifier was stored no fetch
  begins for 24 hours; and every verifier that a caller is given was built, with the program's four options, from a
  trust root that was fetched in the history of this verifier.\<close>

theorem trust_root_fetches:
  assumes "singleflight_law sf members" and "reachable sg sf es g"
  shows "length (g_routines g) \<le> 1 \<and> spaced (g_log g)
    \<and> (\<forall>p v. g_callers g p = Returned (Inr v) \<longrightarrow>
         (\<exists>i trustedRoot. Fetched i (Inr trustedRoot) \<in> set es
            \<and> sg_NewVerifier sg trustedRoot root_options = Inr v))"
proof -
  have "length (g_routines g) \<le> 1"
    using reachable_single [OF assms(2,1)] by (auto simp: single_def split: option.splits)
  with reachable_ok [OF assms(2)] show ?thesis
    by (auto simp: shared_ok_def stored_ok_def caller_ok_def sourced_def)
qed

text \<open>A day in the life of the cache: two callers share a fetch, a third is served from the cache, and a day later a
  fourth starts a new fetch.\<close>

definition sample_events :: "nat event list" where
  "sample_events =
     [Ask 0, Ask 1, DoChan 0, DoChan 1, Recheck 0, Fetched 0 (Inr 7), Store 0, Hand 0, Receive 0, Receive 1, Ask 2,
      Tick 86400, Ask 3, DoChan 3, Recheck 0]"

lemma sample_run:
  "\<exists>g. run_events sample_sigstore sample_flight sample_events (new_shared sample_flight 100) = Some g
     \<and> g_log g = [FetchAt 86500, StoreAt 100, FetchAt 100] \<and> g_callers g 2 = Returned (Inr 7)
     \<and> g_callers g 3 = Waiting"
proof -
  have "case run_events sample_sigstore sample_flight sample_events (new_shared sample_flight 100) of
      Some g \<Rightarrow> g_log g = [FetchAt 86500, StoreAt 100, FetchAt 100] \<and> g_callers g 2 = Returned (Inr 7)
        \<and> g_callers g 3 = Waiting
    | None \<Rightarrow> False"
    by code_simp
  then show ?thesis by (auto split: option.splits)
qed

theorem trust_root_fetches_witness:
  "\<exists>g. reachable sample_sigstore sample_flight sample_events g \<and> length (g_routines g) \<le> 1 \<and> spaced (g_log g)
     \<and> g_log g = [FetchAt 86500, StoreAt 100, FetchAt 100]
     \<and> (\<exists>i trustedRoot. Fetched i (Inr trustedRoot) \<in> set sample_events
          \<and> sg_NewVerifier sample_sigstore trustedRoot root_options = Inr 7)"
proof -
  obtain g where g: "run_events sample_sigstore sample_flight sample_events (new_shared sample_flight 100) = Some g"
    "g_log g = [FetchAt 86500, StoreAt 100, FetchAt 100]" "g_callers g 2 = Returned (Inr 7)"
    using sample_run by blast
  have r: "reachable sample_sigstore sample_flight sample_events g"
    using reachable_run [OF reachable.start g(1)] by simp
  from trust_root_fetches [OF sample_flight_law r] r g show ?thesis by blast
qed

text \<open>The events of the goroutines when the fetch has the given outcome, and of the caller that takes its result.\<close>

definition serving :: "gerror + 'r \<Rightarrow> nat \<Rightarrow> 'r event \<Rightarrow> bool" where
  "serving outcome p e \<longleftrightarrow>
     e = Receive p \<or> (\<exists>i. e = Recheck i \<or> e = Fetched i outcome \<or> e = Store i \<or> e = Hand i)"

definition served ::
  "('b, 's, 'i, 'id, 'r, 'v) sigstore_lib \<Rightarrow> 'g singleflight \<Rightarrow> gerror + 'r \<Rightarrow> nat \<Rightarrow> nat \<Rightarrow>
   ('v, 'g) shared \<Rightarrow> bool" where
  "served sg sf outcome p n g \<longleftrightarrow>
     (\<exists>es g' r. list_all (serving outcome p) es \<and> length es \<le> n \<and> run_events sg sf es g = Some g'
        \<and> g_callers g' p = Returned r \<and> (\<forall>q. g_callers g' q \<noteq> Waiting))"

lemma served_step:
  assumes "configured_step sg sf e g = Some g'" "serving outcome p e" "served sg sf outcome p n g'"
  shows "served sg sf outcome p (Suc n) g"
proof -
  from assms(3) obtain es g'' r where es: "list_all (serving outcome p) es" "length es \<le> n"
    "run_events sg sf es g' = Some g''" "g_callers g'' p = Returned r" "\<forall>q. g_callers g'' q \<noteq> Waiting"
    unfolding served_def by blast
  have "list_all (serving outcome p) (e # es)" "length (e # es) \<le> Suc n"
    "run_events sg sf (e # es) g = Some g''"
    using es(1-3) assms(1,2) by simp_all
  with es(4,5) show ?thesis unfolding served_def by blast
qed

lemma served_mono: "served sg sf outcome p m g \<Longrightarrow> m \<le> n \<Longrightarrow> served sg sf outcome p n g"
  unfolding served_def using le_trans by blast

lemma served_handing:
  assumes law: "singleflight_law sf members" and ok: "single members g"
    and p: "g_callers g p = Waiting" and r: "g_routines g = [Handing x]"
  shows "served sg sf outcome p 2 g"
proof -
  obtain ps where ps: "members (g_initialize g) ''public-root'' = Some ps"
    "\<forall>q. g_callers g q = Waiting \<longrightarrow> q \<in> set ps"
    using single_waiting [OF ok p] by blast
  obtain channels flight where f: "sf_finish sf (g_initialize g) ''public-root'' = (channels, flight)"
    by (cases "sf_finish sf (g_initialize g) ''public-root''")
  have "channels = ps" by (rule flight_finish [OF law ps(1) f])
  with ps p r f have "\<exists>g'. run_events sg sf [Hand 0, Receive p] g = Some g' \<and> g_callers g' p = Returned x
      \<and> (\<forall>q. g_callers g' q \<noteq> Waiting)"
    by (auto simp: routine_at_def set_caller_def)
  moreover have "list_all (serving outcome p) [Hand 0, Receive p]" by (simp add: serving_def)
  moreover have "length [Hand 0, Receive p] \<le> 2" by simp
  ultimately show ?thesis unfolding served_def by blast
qed

lemma served_routine:
  assumes law: "singleflight_law sf members" and ok: "single members g"
    and p: "g_callers g p = Waiting" and r: "g_routines g = [r]"
  shows "served sg sf outcome p 5 g"
proof -
  have step: "served sg sf outcome p (Suc n) g1"
    if "single members g1" "g_callers g1 p = Waiting" "configured_step sg sf e g1 = Some g2" "serving outcome p e"
      "single members g2 \<Longrightarrow> g_callers g2 p = Waiting \<Longrightarrow> served sg sf outcome p n g2"
      "g_callers g2 = g_callers g1" for e g1 g2 n
    using served_step [OF that(3,4) that(5)] single_step [OF law that(1,3)] that(2,6) by metis
  have built: "served sg sf outcome p 3 g1"
    if g1: "single members g1" "g_callers g1 p = Waiting" "g_routines g1 = [Built v]" for g1 v
  proof -
    let ?g = "set_routine 0 (Handing (Inr v)) (g1\<lparr>g_cached := Some (v, g_now g1 + trustedRootCachePeriod),
        g_log := StoreAt (g_now g1) # g_log g1\<rparr>)"
    have "served sg sf outcome p (Suc 2) g1"
      by (rule step [OF g1(1,2), of "Store 0" ?g])
        (use g1(3) served_handing [OF law, of ?g p "Inr v"] in \<open>simp_all add: routine_at_def serving_def set_routine_def\<close>)
    then show ?thesis by simp
  qed
  have fetching: "served sg sf outcome p 4 g1"
    if g1: "single members g1" "g_callers g1 p = Waiting" "g_routines g1 = [Fetching]" for g1
  proof -
    let ?g = "set_routine 0 (after_fetch sg outcome) g1"
    have "served sg sf outcome p 3 ?g" if "single members ?g" "g_callers ?g p = Waiting"
    proof (cases "after_fetch sg outcome")
      case (Built v)
      with built [OF that, of v] g1(3) show ?thesis by (simp add: set_routine_def)
    next
      case (Handing x)
      with served_handing [OF law that, of x] g1(3) have "served sg sf outcome p 2 ?g" by (simp add: set_routine_def)
      then show ?thesis by (rule served_mono) simp
    qed (auto simp: after_fetch_def split: sum.splits)
    then have "served sg sf outcome p (Suc 3) g1"
      by (rule step [OF g1(1,2), of "Fetched 0 outcome" ?g, rotated 2])
        (use g1(3) in \<open>simp_all add: routine_at_def serving_def set_routine_def\<close>)
    then show ?thesis by simp
  qed
  have begun: "served sg sf outcome p 5 g" if b: "g_routines g = [Begun]"
  proof (cases "cachedVerifier g (g_now g)")
    case None
    let ?g = "set_routine 0 Fetching (g\<lparr>g_log := FetchAt (g_now g) # g_log g\<rparr>)"
    have "served sg sf outcome p (Suc 4) g"
      by (rule step [OF ok p, of "Recheck 0" ?g])
        (use b None fetching [of ?g] in \<open>simp_all add: routine_at_def serving_def set_routine_def\<close>)
    then show ?thesis by simp
  next
    case (Some v)
    let ?g = "set_routine 0 (Handing (Inr v)) g"
    have "served sg sf outcome p (Suc 2) g"
      by (rule step [OF ok p, of "Recheck 0" ?g])
        (use b Some served_handing [OF law, of ?g p "Inr v"] in \<open>simp_all add: routine_at_def serving_def set_routine_def\<close>)
    then show ?thesis by (rule served_mono) simp
  qed
  show ?thesis
  proof (cases r)
    case Begun
    with begun r show ?thesis by blast
  next
    case Fetching
    with fetching [OF ok p] r served_mono [of sg sf outcome p 4 g 5] show ?thesis by simp
  next
    case (Built v)
    with built [OF ok p, of v] r served_mono [of sg sf outcome p 3 g 5] show ?thesis by simp
  next
    case (Handing x)
    with served_handing [OF law ok p, of x sg outcome] r served_mono [of sg sf outcome p 2 g 5] show ?thesis by simp
  qed
qed

text \<open>C27 No caller is forgotten: in every reachable state in which a caller waits, and whatever the outcome of the fetch is,
  at most four steps of the goroutines alone bring a value into the caller's channel, so that its next step returns;
  and then no other caller waits any more. No caller has to give up and none has to move for another.\<close>

theorem waiting_caller_served:
  assumes "singleflight_law sf members" and "reachable sg sf history g" and "g_callers g p = Waiting"
  shows "\<exists>es g' r. list_all (serving outcome p) es \<and> length es \<le> 5 \<and> run_events sg sf es g = Some g'
    \<and> g_callers g' p = Returned r \<and> (\<forall>q. g_callers g' q \<noteq> Waiting)"
proof -
  have ok: "single members g" by (rule reachable_single [OF assms(2,1)])
  then obtain r where "g_routines g = [r]" using single_waiting [OF ok assms(3)] by blast
  from served_routine [OF assms(1) ok assms(3) this, of sg outcome] show ?thesis by (simp add: served_def)
qed

theorem waiting_caller_served_witness:
  "\<exists>g es g' r. reachable sample_sigstore sample_flight sample_events g \<and> g_callers g 3 = Waiting
     \<and> list_all (serving (Inl ErrEOF) 3) es \<and> run_events sample_sigstore sample_flight es g = Some g'
     \<and> g_callers g' 3 = Returned r"
proof -
  obtain g where g: "run_events sample_sigstore sample_flight sample_events (new_shared sample_flight 100) = Some g"
    "g_callers g 3 = Waiting"
    using sample_run by blast
  have r: "reachable sample_sigstore sample_flight sample_events g"
    using reachable_run [OF reachable.start g(1)] by simp
  from waiting_caller_served [OF sample_flight_law r g(2), of "Inl ErrEOF"] r g(2) show ?thesis by blast
qed

text \<open>What an accepted bundle says: \<open>v\<close> verified it.\<close>

definition sigstore_verified ::
  "('b, 's, 'i, 'id, 'r, 'v) sigstore_lib \<Rightarrow> 'v \<Rightarrow> bytes \<Rightarrow> attestationRequest \<Rightarrow> bool" where
  "sigstore_verified sg v bundleJSON request \<longleftrightarrow>
     (\<exists>b san iss identity st s.
        sg_UnmarshalJSON sg bundleJSON = Inr b
        \<and> sg_NewSANMatcher sg (ar_SignerIdentity request) [] = Inr san
        \<and> sg_NewIssuerMatcher sg (ar_Issuer request) [] = Inr iss
        \<and> sg_NewCertificateIdentity sg san iss
            \<lparr>ex_SourceRepositoryURI = ar_SourceRepository request,
             ex_SourceRepositoryOwnerURI = ar_SourceOwner request\<rparr> = Inr identity
        \<and> sg_Verify sg v b
            \<lparr>po_algorithm = ''sha256'', po_digest = ar_DigestSHA256 request, po_identity = identity\<rparr> = Inr (Some st)
        \<and> st_type st = inTotoStatementV1 \<and> st_predicateType st = ar_PredicateType request
        \<and> s \<in> set (st_subject st) \<and> su_name s = ar_AssetName request
        \<and> digest_of s = hex_encode (ar_DigestSHA256 request))"

lemma check_statement_None:
  "check_statement request result = None \<longleftrightarrow>
     (\<exists>st s. result = Some st \<and> st_type st = inTotoStatementV1 \<and> st_predicateType st = ar_PredicateType request
        \<and> s \<in> set (st_subject st) \<and> su_name s = ar_AssetName request
        \<and> digest_of s = hex_encode (ar_DigestSHA256 request))"
  by (auto simp: check_statement_def list_ex_iff split: option.splits)

lemma configuredVerifier_ok:
  assumes "configuredVerifier sg sf history w = (Inr v, w')"
  shows "sourced sg (fst (snd (history w))) v"
proof -
  obtain start es p where h: "history w = (start, es, p)" by (cases "history w")
  from assms h obtain g where g: "run_events sg sf es (new_shared sf start) = Some g" "g_callers g p = Returned (Inr v)"
    by (auto simp: configuredVerifier_def split: option.splits caller.splits)
  from reachable_run [OF reachable.start g(1)] have "reachable sg sf es g" by simp
  from reachable_ok [OF this] g(2) h show ?thesis by (auto simp: shared_ok_def caller_ok_def)
qed

lemma VerifyAttestation_ok:
  assumes "VerifyAttestation sg sf history bundleJSON request w = (Inr (), w')"
  shows "\<exists>v w1. sigstore_verified sg v bundleJSON request \<and> sourced sg (fst (snd (history w1))) v"
proof -
  from assms obtain b identity v result w1 w2 where r: "sg_UnmarshalJSON sg bundleJSON = Inr b"
    "buildCertificateIdentity sg request = Inr identity"
    "configuredVerifier sg sf history w1 = (Inr v, w2)"
    "sg_Verify sg v b \<lparr>po_algorithm = ''sha256'', po_digest = ar_DigestSHA256 request, po_identity = identity\<rparr> = Inr result"
    "check_statement request result = None"
    by (auto simp: VerifyAttestation_def Inr_simps split: option.splits)
  from r(2) obtain san iss where "sg_NewSANMatcher sg (ar_SignerIdentity request) [] = Inr san"
    "sg_NewIssuerMatcher sg (ar_Issuer request) [] = Inr iss"
    "sg_NewCertificateIdentity sg san iss
       \<lparr>ex_SourceRepositoryURI = ar_SourceRepository request,
        ex_SourceRepositoryOwnerURI = ar_SourceOwner request\<rparr> = Inr identity"
    by (auto simp: buildCertificateIdentity_def split: sum.splits)
  with r(1,4) r(5) [unfolded check_statement_None] have "sigstore_verified sg v bundleJSON request"
    unfolding sigstore_verified_def by blast
  with configuredVerifier_ok [OF r(3)] show ?thesis by blast
qed

end
