(* ===== verification/Spec2Isabelle.thy ===== *)
theory Spec2Isabelle
  imports Apply_Safety Check_Safety Sigstore
begin

text \<open>
  This is a verification of go-selfupdate, a Go library with which a command-line tool replaces its
  own executable by a release from GitHub. An \<^verbatim>\<open>Updater\<close> has two operations. \<^verbatim>\<open>Check\<close> (and
  \<^verbatim>\<open>CheckVersion\<close>) fetches the metadata of a release, validates it, verifies the attestation of the
  asset when the configuration asks for one, hashes the running executable and returns a \<^verbatim>\<open>Plan\<close>.
  \<^verbatim>\<open>Apply\<close> guards the plan, takes a lock beside the executable, sweeps what a killed process left
  behind, checks that the executable is the one the plan was made for, downloads the archive and
  compares its digest with the plan's, extracts the command into a stage file, and replaces the
  executable by it. Both operations are modelled whole, for Unix and for Windows, with every error
  path, every deferred function and every early return.

  The theories and the sources they model, from the bottom up:

    \<^item> Prelude: the rule collections and the list and string operations of Go's \<^verbatim>\<open>strings\<close>, \<^verbatim>\<open>path\<close>,
      \<^verbatim>\<open>encoding/hex\<close> and \<^verbatim>\<open>unicode/utf8\<close> that the program uses. Errors: Go error trees with
      \<^verbatim>\<open>errors.Is\<close>, \<^verbatim>\<open>errors.Join\<close> and the texts of \<^verbatim>\<open>RollbackError\<close> (install.go).
    \<^item> Regex, Version, Hex, Url: the patterns and stable versions of selfupdate.go, digests of http.go,
      parsed URLs.
    \<^item> World, Filesystem: the outside of the program as a state, the effect monad, the operating
      system's calls and the Hoare logic in which the components are proved.
    \<^item> Readers: \<^verbatim>\<open>io.Copy\<close> with a bound, \<^verbatim>\<open>contextReader\<close> (archive.go), \<^verbatim>\<open>idleTimeoutReader\<close> with its
      timer, \<^verbatim>\<open>countingReader\<close> and \<^verbatim>\<open>copyBounded\<close> (http.go).
    \<^item> Archive: both extraction loops of archive.go, over an abstract destination (the locale \<open>sink\<close>).
    \<^item> Types: the records of selfupdate.go, http.go, attestation.go and verifier.go, and the libraries.
    \<^item> Http: http.go. Attestation: attestation.go. Sigstore: sigstore/sigstore.go.
    \<^item> Install: install.go. Lock: lock_unix.go and lock_windows.go. Replacement: the contract of
      \<^verbatim>\<open>replaceExecutable\<close>; Replace_Unix and Replace_Windows: replace_unix.go and replace_windows.go.
    \<^item> Updater: selfupdate.go. Platform: the rule of \<^verbatim>\<open>Apply\<close> on every platform that keeps the contract.
      Platforms: the two platforms of the program, which keep it.
    \<^item> Apply_Safety and Check_Safety: what the two operations guarantee. Samples: the concrete updater,
      plans and worlds on which the properties of the whole are witnessed.

  State and effects. A \<open>world\<close> holds directory entries that name inodes, the inodes, advisory locks,
  the context's error, the random source, the servers' answers that are still to come and the effects
  performed so far (renames, removals, changes of mode, requests, progress reports). What everybody
  else does is a script: every system call first consumes one step of it, a list of actions of other
  processes and perhaps a fault that makes the call fail. A theorem for all worlds is therefore one for
  every interleaving with other processes and every failure; where a property needs other processes to
  leave some names alone the hypothesis \<open>stable_env\<close> says which. An empty script is a quiet environment.
  Errors are values of \<open>gerror\<close>, a call that returns \<^verbatim>\<open>(T, error)\<close> is a function to a sum, and a
  function whose result and error are both used is a \<open>prog\<close> to a pair. Strings are byte strings.

  Platforms. Build tags choose one of two files for five operations in Go; here these are the fields of
  the record \<open>platform\<close>, with the values \<open>unix_platform\<close> and \<open>windows_platform\<close>. What \<^verbatim>\<open>Apply\<close> needs of
  them is the locale \<open>updating_platform\<close>, which extends \<open>replacement_platform\<close> and
  \<open>staging_platform\<close>; it takes as parameters which renames a replacement may do and in what sense the
  original survives, because these differ: on Unix one rename and an original that is never away, on
  Windows a backup, a rollback, and an error that names the backup when the rollback failed too.

  What the lemmas show. C1 to C7: what \<^verbatim>\<open>Apply\<close> installs, what becomes of the executable, what is
  refused, and that a cancelled call returns. C8 to C11: what a plan says about the metadata, the
  attestation and its signature, and where the token goes. C12, C13 and C35: staging and extraction,
  with the refinement to the specification of the selected member and the bound on what is written;
  C14 and C15: what extraction rejects. C16 and C17: the lock. C18 to C20: the sweep and the names of
  temporary files. C21 to C23 and C38: metadata, downloads and redirects. C24, C25 and C39: pages and
  bundles of attestations. C26 and C27: the shared cache of the Sigstore verifier. C28 to C34, C36 and
  C37: validation, versions, digests, bounded copies, the stall detector, asset names and patterns.

  Bounds. Every loop of the model is structural or has a measure: the archive's members, the events of a
  stream, the servers' answers (a redirect consumes one), the script (each poll of the lock consumes
  steps of it), ten attempts at a random name, three pages of attestations. No fuel is chosen. Waiting
  for a lock that is never released, with a context that is never cancelled, is the result \<open>None\<close> of
  \<^verbatim>\<open>acquireFileLock\<close>; C7 excludes it once the context is or will be cancelled. Sizes are unbounded
  integers in the places where the program compares them with limits far below 2 ^ 63; file attributes
  and the sizes in ZIP directories are words. Time is in milliseconds for requests and reads, in seconds
  for the Sigstore cache.

  Parameters. The code of these packages is not part of the repository, so the definitions take them as
  arguments: the HTTP transport (as the list of answers), the parser and printer of \<^verbatim>\<open>net/url\<close>,
  \<^verbatim>\<open>encoding/json\<close>, the decoders \<^verbatim>\<open>compress/gzip\<close>, \<^verbatim>\<open>archive/tar\<close> and \<^verbatim>\<open>archive/zip\<close>, SHA-256, semver,
  snappy, sigstore-go with its TUF client, and singleflight. Some properties need documented behaviour
  of one of them, as named hypotheses: \<open>semver_spec\<close> (C5, C31: versions are compared by precedence),
  \<open>url_law\<close> (C10, C25: a URL that comes from text and has a host keeps its scheme and host when it is
  printed and parsed again) and \<open>singleflight_law\<close> (C26, C27: one execution in flight, whose result every
  duplicate gets). The Sigstore cache is a machine of atomic steps; a call of \<^verbatim>\<open>configuredVerifier\<close> is one
  caller's part of a history of such steps, which the environment chooses.

  Not modelled: the tests; the text of errors of the operating system; crashes of the machine between
  two writes (\<^verbatim>\<open>Sync\<close> is a call that can fail, without a model of the disk's cache); symbolic links in
  the middle of a path, which \<^verbatim>\<open>EvalSymlinks\<close> resolves in one step; panics of callbacks.
\<close>

section \<open>What Apply installs\<close>

text \<open>C1 On Unix, whatever other processes do to names that are not temporary names of the
  executable, whatever calls fail and whenever the context is cancelled: \<^verbatim>\<open>Apply\<close> either reports
  Committed, with the versions of the plan, and has done exactly one rename, of the command's member
  of an archive whose digest is the plan's onto the executable; or it reports nothing and has
  renamed nothing.\<close>

theorem apply_unix_installs_verified:
  assumes "apply_guards lb receiver ctx pl = Inr (u, p)" and "up_beforeCommit u = None"
    and "stable_env (is_temp (pl_executable p)) w"
    and "Apply lb unix_platform receiver ctx pl w = Some ((r, e), w')"
  shows "\<exists>rs. renames w' = rs @ renames w
    \<and> (if res_Committed r
       then r = \<lparr>res_Committed = True, res_CleanupPending = res_CleanupPending r,
                 res_PreviousVersion = pl_currentVersion p, res_Version = pl_availableVersion p,
                 res_Executable = Some (pl_executable p)\<rparr>
         \<and> (\<exists>stage d. is_stage (pl_executable p) stage \<and> verified lb u p d
              \<and> rs = [ERename stage (pl_executable p) d])
       else r = no_result \<and> rs = [])"
proof -
  from unix.apply_verified [OF assms] obtain rs where
    rs: "renames w' = rs @ renames w" "acted atomic_move lb u p r rs" by blast
  then show ?thesis
    by (intro exI [of _ rs]) (auto simp: acted_def atomic_move_def split: if_splits)
qed

theorem apply_unix_installs_verified_witness:
  "\<exists>r w' stage d. Apply sample_libs unix_platform (Some sample_updater) True (Some sample_plan)
       (sample_world [answer ''new'']) = Some ((r, None), w')
     \<and> res_Committed r \<and> verified sample_libs sample_updater sample_plan d
     \<and> renames w' = [ERename stage sample_target d]"
proof -
  obtain r w' where run: "Apply sample_libs unix_platform (Some sample_updater) True (Some sample_plan)
      (sample_world [answer ''new'']) = Some ((r, None), w')" "res_Committed r"
    using sample_unix_run by blast
  have start: "renames (sample_world [answer ''new'']) = []" by (simp add: renames_def sample_world_def)
  have hook: "up_beforeCommit sample_updater = None" by (simp add: sample_updater_def)
  have target: "pl_executable sample_plan = sample_target" by (simp add: sample_plan_def)
  from apply_unix_installs_verified [OF sample_guards(1) hook sample_stable run(1), unfolded start target] run(2)
  obtain stage d where "verified sample_libs sample_updater sample_plan d" "renames w' = [ERename stage sample_target d]"
    by auto
  with run show ?thesis by blast
qed

text \<open>C2 On Windows the executable is first renamed to a backup: Committed is reported exactly when
  verified bytes were renamed onto the executable, and nothing but them, or a backup being rolled
  back, is renamed onto it.\<close>

theorem apply_windows_installs_verified:
  assumes "apply_guards lb receiver ctx pl = Inr (u, p)" and "up_beforeCommit u = None"
    and "stable_env (is_temp (pl_executable p)) w"
    and "Apply lb windows_platform receiver ctx pl w = Some ((r, e), w')"
  shows "\<exists>rs. renames w' = rs @ renames w \<and> applied lb u p r rs"
  using windows.apply_verified [OF assms] acted_installs by blast

theorem apply_windows_installs_verified_witness:
  "\<exists>r w' rs. Apply sample_libs windows_platform (Some windows_updater) True (Some windows_plan)
       (windows_world [answer ''new'']) = Some ((r, None), w')
     \<and> res_Committed r \<and> renames w' = rs \<and> applied sample_libs windows_updater windows_plan r rs"
proof -
  obtain r w' where run: "Apply sample_libs windows_platform (Some windows_updater) True (Some windows_plan)
      (windows_world [answer ''new'']) = Some ((r, None), w')" "res_Committed r"
    using sample_windows_run by blast
  have "renames (windows_world [answer ''new'']) = []"
    by (simp add: renames_def windows_world_def sample_world_def)
  with apply_windows_installs_verified [OF sample_guards(2) _ windows_stable run(1)] run show ?thesis
    by (auto simp: sample_updater_def windows_updater_def)
qed

section \<open>What becomes of the executable\<close>

text \<open>C3 When no other process touches the executable or its temporary names, after \<^verbatim>\<open>Apply\<close> on Unix
  the executable is the verified bytes with the permissions it had before, if the result says
  Committed, and then what was replaced had the plan's hash; otherwise it is the very file it was.
  The call never returns with the executable missing.\<close>

theorem apply_unix_executable:
  assumes "apply_guards lb receiver ctx pl = Inr (u, p)" and "up_beforeCommit u = None"
    and "stable_env (own_names (pl_executable p)) w" and "node_at w (pl_executable p) = Some nt"
    and "Apply lb unix_platform receiver ctx pl w = Some ((r, e), w')"
  shows "if res_Committed r
    then lb_sha256 lb (n_content nt) = pl_executableHash p \<and> n_kind nt = Regular
      \<and> (\<exists>d. verified lb u p d \<and> node_at w' (pl_executable p) = Some (plain_node d (n_perm nt mod 512)))
    else node_at w' (pl_executable p) = Some nt"
  using unix.apply_executable [OF assms] by (auto simp: after_apply_def untouched_def)

theorem apply_unix_executable_witness:
  "\<exists>r w' d. Apply sample_libs unix_platform (Some sample_updater) True (Some sample_plan)
       (sample_world [answer ''new'']) = Some ((r, None), w')
     \<and> res_Committed r \<and> verified sample_libs sample_updater sample_plan d
     \<and> node_at w' sample_target = Some (plain_node d 493)"
proof -
  obtain r w' where run: "Apply sample_libs unix_platform (Some sample_updater) True (Some sample_plan)
      (sample_world [answer ''new'']) = Some ((r, None), w')" "res_Committed r"
    using sample_unix_run by blast
  have target: "pl_executable sample_plan = sample_target" by (simp add: sample_plan_def)
  have hook: "up_beforeCommit sample_updater = None" by (simp add: sample_updater_def)
  have node: "node_at (sample_world [answer ''new'']) (pl_executable sample_plan) = Some (plain_node ''old'' 493)"
    by (simp add: sample_world_def sample_plan_def node_at_def lookup_def node_of_def)
  from apply_unix_executable [OF sample_guards(1) hook sample_stable node run(1)] run(2)
  obtain d where "verified sample_libs sample_updater sample_plan d"
    "node_at w' sample_target = Some (plain_node d (n_perm (plain_node ''old'' 493) mod 512))"
    by (auto simp: target)
  with run show ?thesis by (auto simp: plain_node_def)
qed

text \<open>C4 On Windows: after a commit the executable is the verified bytes; otherwise the original is in
  place or, when the rollback failed too, it is kept at the backup path that the error names.\<close>

theorem apply_windows_executable:
  assumes "apply_guards lb receiver ctx pl = Inr (u, p)" and "up_beforeCommit u = None"
    and "stable_env (own_names (pl_executable p)) w" and "node_at w (pl_executable p) = Some nt"
    and "Apply lb windows_platform receiver ctx pl w = Some ((r, e), w')"
  shows "\<exists>re. executable_after lb u p nt r re w' \<and> carries re e"
  using windows.apply_executable [OF assms] by (simp only: executable_after_eq)

theorem apply_windows_executable_witness:
  "\<exists>r w' re. Apply sample_libs windows_platform (Some windows_updater) True (Some windows_plan)
       (windows_world [answer ''new'']) = Some ((r, None), w')
     \<and> res_Committed r \<and> executable_after sample_libs windows_updater windows_plan (plain_node ''old'' 493) r re w'"
proof -
  obtain r w' where run: "Apply sample_libs windows_platform (Some windows_updater) True (Some windows_plan)
      (windows_world [answer ''new'']) = Some ((r, None), w')" "res_Committed r"
    using sample_windows_run by blast
  have "node_at (windows_world [answer ''new'']) (pl_executable windows_plan) = Some (plain_node ''old'' 493)"
    by (simp add: windows_world_def sample_world_def windows_plan_def node_at_def lookup_def node_of_def)
  with apply_windows_executable [OF sample_guards(2) _ windows_stable _ run(1)] run show ?thesis
    by (auto simp: sample_updater_def windows_updater_def)
qed

section \<open>What Apply refuses\<close>

text \<open>C5 Rollback defence: with semantic versions compared as documented, a plan whose version is not
  strictly newer than the current one is refused before anything is touched, on every platform,
  unless it comes from \<^verbatim>\<open>CheckVersion\<close> and the configuration allows downgrades.\<close>

theorem apply_refuses_downgrade:
  assumes "semver_spec (lb_semver lb)"
    and "pl_currentVersion p = render_version current" and "pl_availableVersion p = render_version available"
    and "available \<le> current" and "\<not> (pl_targeted p \<and> up_allowDowngrade u)"
  shows "\<exists>e. Apply lb pf (Some u) ctx (Some p) w = Some ((no_result, Some e), w)"
proof -
  have "\<not> sv_compare (lb_semver lb) (pl_currentVersion p) (pl_availableVersion p) < 0"
    using assms(2-4) by (simp add: sv_compare_less [OF assms(1)])
  with assms(5) have "\<exists>e. apply_guards lb (Some u) ctx (Some p) = Inl e"
    by (auto simp: apply_guards_def Let_def)
  then show ?thesis by (auto simp: Apply_def reject_def give_def)
qed

theorem apply_refuses_downgrade_witness:
  "\<exists>e. Apply sample_libs unix_platform (Some sample_updater) True
     (Some (sample_plan\<lparr>pl_currentVersion := ''v1.3.0''\<rparr>)) (sample_world []) = Some ((no_result, Some e), sample_world [])"
proof (rule apply_refuses_downgrade)
  show "semver_spec (lb_semver sample_libs)"
    by (simp add: sample_libs_def exact_semver_spec)
  show "pl_currentVersion (sample_plan\<lparr>pl_currentVersion := ''v1.3.0''\<rparr>) = render_version (Version 1 3 0)"
    by code_simp
  show "pl_availableVersion (sample_plan\<lparr>pl_currentVersion := ''v1.3.0''\<rparr>) = render_version (Version 1 2 0)"
    by code_simp
  show "Version 1 2 0 \<le> Version 1 3 0" by (simp add: less_eq_version_def)
  show "\<not> (pl_targeted (sample_plan\<lparr>pl_currentVersion := ''v1.3.0''\<rparr>) \<and> up_allowDowngrade sample_updater)"
    by (simp add: sample_plan_def)
qed

text \<open>C6 Fail-closed attestation: an updater with an attestation workflow refuses, before anything is
  touched, a plan that carries no provenance record of the same owner, repository, workflow,
  version, asset and archive digest.\<close>

theorem apply_refuses_unattested:
  assumes "up_attestationWorkflow u \<noteq> []"
    and "\<forall>record. pl_provenance p = Some record \<longrightarrow> \<not> matches record u p"
  shows "\<exists>e. Apply lb pf (Some u) ctx (Some p) w = Some ((no_result, Some e), w)"
proof -
  have "\<exists>e. apply_guards lb (Some u) ctx (Some p) = Inl e"
    using assms by (auto simp: apply_guards_def Let_def split: option.splits)
  then show ?thesis by (auto simp: Apply_def reject_def give_def)
qed

theorem apply_refuses_unattested_witness:
  "\<exists>e. Apply sample_libs unix_platform
     (Some (sample_updater\<lparr>up_attestationWorkflow := ''.github/workflows/release.yml''\<rparr>)) True
     (Some sample_plan) (sample_world []) = Some ((no_result, Some e), sample_world [])"
  by (rule apply_refuses_unattested) (simp_all add: sample_plan_def)

text \<open>C7 \<^verbatim>\<open>Apply\<close> cannot hang: once the context is done, or some event will cancel it, the call
  returns, whoever holds the lock.\<close>

theorem apply_returns_when_cancelled:
  assumes "will_cancel w"
  shows "(\<exists>out. Apply lb unix_platform receiver ctx pl w = Some out)
    \<and> (\<exists>out. Apply lb windows_platform receiver ctx pl w = Some out)"
  using unix.apply_returns [OF assms] windows.apply_returns [OF assms] by blast

text \<open>In the witness another process holds the lock for good, and a cancellation comes later.\<close>

definition locked_world :: world where
  "locked_world = (sample_world [])
     \<lparr>dirents := [(sample_target, 0), (lock_path sample_target, 1)],
      inodes := [(0, plain_node ''old'' 493), (1, plain_node [] 384)], next_ino := 2, flocks := [(1, 7)],
      script := replicate 9 quiet_step @ [quiet_step\<lparr>acts := [EnvCancel CtxCanceled]\<rparr>]\<rparr>"

theorem apply_returns_when_cancelled_witness:
  "will_cancel locked_world
   \<and> (\<exists>out. Apply sample_libs unix_platform (Some sample_updater) True (Some sample_plan) locked_world = Some out)"
proof -
  have "will_cancel locked_world"
    by (simp add: will_cancel_def locked_world_def quiet_step_def)
  with apply_returns_when_cancelled show ?thesis by blast
qed

section \<open>Plans\<close>

text \<open>C8 A plan of \<^verbatim>\<open>Check\<close> passes the guards of \<^verbatim>\<open>Apply\<close> exactly when it says that an update is
  available: no plan that \<^verbatim>\<open>Check\<close> offers is refused later, and no other is accepted.\<close>

theorem check_then_apply:
  assumes "Check lb (Some u) True w = (Inr p, w')"
  shows "apply_guards lb (Some u) True (Some p) = Inr (u, p) \<longleftrightarrow> plan_UpdateAvailable (Some p)"
  using checked_guards [OF Check_checked [OF assms]] by (simp add: plan_UpdateAvailable_def)

lemma sample_check:
  "\<exists>p w'. Check sample_libs (Some sample_updater) True (sample_world [answer ''release'']) = (Inr p, w')
     \<and> plan_UpdateAvailable (Some p)"
proof -
  have "case Check sample_libs (Some sample_updater) True (sample_world [answer ''release'']) of
      (Inr p, w') \<Rightarrow> plan_UpdateAvailable (Some p) | (Inl e, w') \<Rightarrow> False"
    by code_simp
  then show ?thesis by (auto split: prod.splits sum.splits)
qed

theorem check_then_apply_witness:
  "\<exists>p w'. Check sample_libs (Some sample_updater) True (sample_world [answer ''release'']) = (Inr p, w')
     \<and> apply_guards sample_libs (Some sample_updater) True (Some p) = Inr (sample_updater, p)"
  using sample_check check_then_apply [of sample_libs sample_updater "sample_world [answer ''release'']"]
  by blast

text \<open>C11 The chain from a plan to the signature: with the Sigstore verifier and an attestation workflow, \<^verbatim>\<open>Check\<close> returns a
  plan only after sigstore-go verified a bundle for the digest of the plan's archive and the identity of the configured
  workflow at the plan's tag, whose in-toto statement names the plan's asset with that digest; and the verifier that did
  was built with the program's options from a trust root that was fetched.\<close>

theorem check_sigstore:
  assumes "Check lb (Some u) ctx w = (Inr p, w')" and "up_attestationWorkflow u \<noteq> []"
    and "up_attestationVerifier u = Some (VerifyAttestation sg sf history)"
  shows "\<exists>bundle request v i trustedRoot w1. sigstore_verified sg v bundle request
    \<and> Fetched i (Inr trustedRoot) \<in> set (fst (snd (history w1)))
    \<and> sg_NewVerifier sg trustedRoot root_options = Inr v
    \<and> ar_DigestSHA256 request = pl_archiveDigest p \<and> ar_AssetName request = pl_assetName p
    \<and> ar_SignerIdentity request = ''https://github.com/'' @ up_owner u @ ''/'' @ up_repository u @ ''/''
        @ up_attestationWorkflow u @ ''@refs/tags/'' @ pl_availableVersion p"
proof -
  from Check_checked [OF assms(1)] obtain release asset provenance executable hash where
    p: "p = plan_of lb u release asset False provenance executable hash"
    and pv: "provenance_ok u release asset provenance"
    by (auto simp: checked_plan_def)
  from pv assms(2,3) obtain bytes w1 w2 where
    "VerifyAttestation sg sf history bytes (attestation_request u release asset) w1 = (Inr (), w2)"
    by (auto simp: provenance_ok_def accepted_def)
  from VerifyAttestation_ok [OF this] obtain v w3 i trustedRoot where
    v: "sigstore_verified sg v bytes (attestation_request u release asset)"
      "Fetched i (Inr trustedRoot) \<in> set (fst (snd (history w3)))"
      "sg_NewVerifier sg trustedRoot root_options = Inr v"
    by (auto simp: sourced_def)
  show ?thesis
    by (intro exI conjI, rule v(1), rule v(2), rule v(3))
      (simp_all add: attestation_request_def plan_of_def p)
qed

text \<open>The first call of a verifier, which fetches the root 7.\<close>

definition sample_history :: "nat history" where
  "sample_history =
     (\<lambda>_. (100, [Ask 0, DoChan 0, Recheck 0, Fetched 0 (Inr 7), Store 0, Hand 0, Receive 0], 0))"

definition sigstore_updater :: updater where
  "sigstore_updater = attesting_updater
     \<lparr>up_attestationVerifier := Some (VerifyAttestation sample_sigstore sample_flight sample_history)\<rparr>"

theorem check_sigstore_witness:
  "\<exists>p w' bundle request v. Check sample_libs (Some sigstore_updater) True
       (sample_world [answer ''release'', answer ''page'', answer ''bundle'']) = (Inr p, w')
     \<and> sigstore_verified sample_sigstore v bundle request \<and> ar_DigestSHA256 request = pl_archiveDigest p"
proof -
  have "case Check sample_libs (Some sigstore_updater) True
       (sample_world [answer ''release'', answer ''page'', answer ''bundle'']) of
      (Inr p, w') \<Rightarrow> True | (Inl e, w') \<Rightarrow> False"
    by code_simp
  then obtain p w' where run: "Check sample_libs (Some sigstore_updater) True
       (sample_world [answer ''release'', answer ''page'', answer ''bundle'']) = (Inr p, w')"
    by (auto split: prod.splits sum.splits)
  have u: "up_attestationWorkflow sigstore_updater \<noteq> []"
    "up_attestationVerifier sigstore_updater
       = Some (VerifyAttestation sample_sigstore sample_flight sample_history)"
    by (simp_all add: sigstore_updater_def attesting_updater_def)
  from run check_sigstore [OF run u] show ?thesis by blast
qed

end
